theory Spec2Isabelle
  imports Main "HOL-Library.Sublist"
begin

chapter \<open>A shallow embedding of the translation proxy (server.py)\<close>

text \<open>
  The proxy accepts chat requests in one wire format, forwards them to a Gemini backend
  through LiteLLM and translates the answers back. This theory embeds the parts of
  \<^verbatim>\<open>server.py\<close> that its specification makes claims about: the model resolver, the
  schema sanitizer, the request and response translators, the streaming reassembler and
  the quota / rate-limit classifier. The first chapter holds the definitions, each one
  written from the source function named in its heading; the second chapter holds the
  theorems.

  Conventions. A Python \<^verbatim>\<open>str\<close> is a \<^typ>\<open>string\<close>, read as a list of code points
  below 256; text outside that range is outside the model. A value whose shape the
  source inspects at run time (a JSON payload, a LiteLLM response object) is a
  \<open>pyval\<close>. Every function of the source that can raise returns a sum whose left
  summand is the exception; a function of the source that catches everything returns a
  plain value.
\<close>

section \<open>Python strings\<close>

text \<open>
  The string methods the source calls. \<open>s.startswith(p)\<close> and \<open>s.endswith(p)\<close> are
  \<^const>\<open>prefix\<close> and \<^const>\<open>suffix\<close>; \<open>p in s\<close> on strings is \<open>is_substr p s\<close>.
\<close>

definition startswith :: "string \<Rightarrow> string \<Rightarrow> bool" where
  "startswith s p = prefix p s"

definition endswith :: "string \<Rightarrow> string \<Rightarrow> bool" where
  "endswith s p = (length p \<le> length s \<and> drop (length s - length p) s = p)"

fun is_substr :: "string \<Rightarrow> string \<Rightarrow> bool" where
  "is_substr p [] = (p = [])"
| "is_substr p (c # cs) = (prefix p (c # cs) \<or> is_substr p cs)"

text \<open>
  \<open>str.lower()\<close> on code points below 256: the ASCII capitals and the Latin-1 capitals
  (192 to 222 except the multiplication sign 215) move up by 32, which sets bit 5.
\<close>

fun lower_char :: "char \<Rightarrow> char" where
  "lower_char (Char b0 b1 b2 b3 b4 b5 b6 b7) =
     (let n = (of_char (Char b0 b1 b2 b3 b4 b5 b6 b7) :: nat) in
      if (65 \<le> n \<and> n \<le> 90) \<or> (192 \<le> n \<and> n \<le> 222 \<and> n \<noteq> 215)
      then Char b0 b1 b2 b3 b4 True b6 b7
      else Char b0 b1 b2 b3 b4 b5 b6 b7)"

definition lower :: "string \<Rightarrow> string" where
  "lower s = map lower_char s"

text \<open>
  \<open>str.isspace()\<close> on one code point below 256: tab to carriage return (9 to 13), the
  separators 28 to 31, the space, NEL (133) and the no-break space (160).
  \<open>str.strip()\<close> removes such characters at both ends.
\<close>

definition is_space :: "char \<Rightarrow> bool" where
  "is_space c = (let n = (of_char c :: nat) in
     (9 \<le> n \<and> n \<le> 13) \<or> (28 \<le> n \<and> n \<le> 32) \<or> n = 133 \<or> n = 160)"

definition strip :: "string \<Rightarrow> string" where
  "strip s = rev (dropWhile is_space (rev (dropWhile is_space s)))"

definition count_char :: "char \<Rightarrow> string \<Rightarrow> nat" where
  "count_char c s = length (filter (\<lambda>d. d = c) s)"

text \<open>\<open>sep.join(parts)\<close>.\<close>

fun join :: "string \<Rightarrow> string list \<Rightarrow> string" where
  "join sep [] = []"
| "join sep [p] = p"
| "join sep (p # q # ps) = p @ sep @ join sep (q # ps)"

text \<open>The double quote, the single quote, the backslash and the line feed.\<close>

definition dq :: char where "dq = CHR 0x22"
definition sq :: char where "sq = CHR 0x27"
definition bsl :: char where "bsl = CHR 0x5C"

definition quoted :: "string \<Rightarrow> string" where
  "quoted s = dq # s @ [dq]"

section \<open>Configuration and the model resolver (\<open>Config\<close>, \<open>ModelManager\<close>)\<close>

text \<open>
  \<open>Config\<close> reads the two backend model names and the token ceiling from the
  environment, so they are parameters here. \<open>default_config\<close> holds the defaults the
  source falls back to.
\<close>

record config =
  big_model :: string
  small_model :: string
  max_tokens_limit :: int

definition default_config :: config where
  "default_config = \<lparr> big_model = ''gemini-2.0-flash-exp'',
                       small_model = ''gemini-1.5-flash-latest'',
                       max_tokens_limit = 8192 \<rparr>"

definition base_gemini_models :: "string list" where
  "base_gemini_models =
     [''gemini-1.5-pro-latest'', ''gemini-1.5-pro-preview-0514'',
      ''gemini-1.5-flash-latest'', ''gemini-1.5-flash-preview-0514'',
      ''gemini-pro'', ''gemini-2.5-pro-preview-05-06'',
      ''gemini-2.5-flash-preview-04-17'', ''gemini-2.0-flash-exp'',
      ''gemini-exp-1206'']"

text \<open>
  \<open>_add_env_models\<close>: each configured model that starts with \<open>gemini\<close> and is not yet
  known joins the set \<open>_gemini_models\<close>.
\<close>

definition add_env_models :: "config \<Rightarrow> string set \<Rightarrow> string set" where
  "add_env_models cfg known =
     fold (\<lambda>m acc. if startswith m ''gemini'' \<and> m \<notin> acc then insert m acc else acc)
          [big_model cfg, small_model cfg] known"

definition gemini_models :: "config \<Rightarrow> string set" where
  "gemini_models cfg = add_env_models cfg (set base_gemini_models)"

text \<open>\<open>_clean_model_name\<close>: the slices \<open>model[7:]\<close> and \<open>model[10:]\<close>.\<close>

definition clean_model_name :: "string \<Rightarrow> string" where
  "clean_model_name model =
     (if startswith model ''gemini/'' then drop 7 model
      else if startswith model ''anthropic/'' then drop 10 model
      else if startswith model ''openai/'' then drop 7 model
      else model)"

text \<open>\<open>_map_model_alias\<close>.\<close>

definition map_model_alias :: "config \<Rightarrow> string \<Rightarrow> string" where
  "map_model_alias cfg clean_model =
     (let model_lower = lower clean_model in
      if is_substr ''haiku'' model_lower then small_model cfg
      else if is_substr ''sonnet'' model_lower \<or> is_substr ''opus'' model_lower
      then big_model cfg
      else clean_model)"

text \<open>\<open>validate_and_map_model\<close>: the resolved model name and whether it was mapped.\<close>

definition validate_and_map_model :: "config \<Rightarrow> string \<Rightarrow> string \<times> bool" where
  "validate_and_map_model cfg original_model =
     (let clean_model = clean_model_name original_model;
          mapped_model = map_model_alias cfg clean_model in
      if mapped_model \<noteq> clean_model then (''gemini/'' @ mapped_model, True)
      else if clean_model \<in> gemini_models cfg then (''gemini/'' @ clean_model, True)
      else if \<not> startswith original_model ''gemini/'' then (''gemini/'' @ original_model, False)
      else (original_model, False))"

text \<open>
  A name that contains none of the alias words \<open>haiku\<close>, \<open>sonnet\<close> and \<open>opus\<close>,
  in any letter case: the names that \<open>_map_model_alias\<close> passes through.
\<close>

definition alias_free :: "string \<Rightarrow> bool" where
  "alias_free s = (\<not> is_substr ''haiku'' (lower s) \<and> \<not> is_substr ''sonnet'' (lower s)
                   \<and> \<not> is_substr ''opus'' (lower s))"

section \<open>Python values and exceptions\<close>

text \<open>
  The values whose shape the source inspects at run time: JSON data as \<open>json.loads\<close>
  returns it (\<open>None\<close>, booleans, integers, floats, strings, lists, and dictionaries with
  string keys) and objects with attributes, as LiteLLM returns them. A dictionary is an
  association list in insertion order; the dictionaries built here never repeat a key.
  A float is carried by its text and its numeric value is not modelled. An object
  carries the name of its class and its attributes.
\<close>

datatype pyval =
    PNone
  | PBool bool
  | PInt int
  | PFloat string
  | PStr string
  | PList "pyval list"
  | PDict "(string \<times> pyval) list"
  | PObj string "(string \<times> pyval) list"

text \<open>
  The exception classes that an \<open>except\<close> clause of the source tells apart, and
  \<open>OtherError\<close> with the class name for every other subclass of \<open>Exception\<close>. An
  exception carries its class and the text that \<open>str\<close> gives for it.
\<close>

datatype exn_class =
    JSONDecodeError | ValueError | KeyError | AttributeError | TypeError | IndexError
  | ValidationError | APIConnectionError | RuntimeError | OtherError string

datatype exn = Exn (exn_cls: exn_class) (exn_msg: string)

text \<open>Sequencing of computations that may raise.\<close>

fun sbind :: "exn + 'a \<Rightarrow> ('a \<Rightarrow> exn + 'b) \<Rightarrow> exn + 'b" where
  "sbind (Inl e) f = Inl e"
| "sbind (Inr x) f = f x"

fun sequence :: "(exn + 'a) list \<Rightarrow> exn + 'a list" where
  "sequence [] = Inr []"
| "sequence (Inl e # rs) = Inl e"
| "sequence (Inr x # rs) = (case sequence rs of Inl e \<Rightarrow> Inl e | Inr xs \<Rightarrow> Inr (x # xs))"

text \<open>\<open>type(v).__name__\<close>, as error messages quote it.\<close>

fun type_name :: "pyval \<Rightarrow> string" where
  "type_name PNone = ''NoneType''"
| "type_name (PBool b) = ''bool''"
| "type_name (PInt i) = ''int''"
| "type_name (PFloat r) = ''float''"
| "type_name (PStr s) = ''str''"
| "type_name (PList xs) = ''list''"
| "type_name (PDict kvs) = ''dict''"
| "type_name (PObj cls attrs) = cls"

text \<open>Truth value testing (\<open>if v:\<close>, \<open>v or d\<close>); an object is true.\<close>

fun truthy :: "pyval \<Rightarrow> bool" where
  "truthy PNone = False"
| "truthy (PBool b) = b"
| "truthy (PInt i) = (i \<noteq> 0)"
| "truthy (PFloat r) = (r \<noteq> ''0.0'' \<and> r \<noteq> ''-0.0'')"
| "truthy (PStr s) = (s \<noteq> [])"
| "truthy (PList xs) = (xs \<noteq> [])"
| "truthy (PDict kvs) = (kvs \<noteq> [])"
| "truthy (PObj cls attrs) = True"

definition py_or :: "pyval \<Rightarrow> pyval \<Rightarrow> pyval" where
  "py_or a b = (if truthy a then a else b)"

text \<open>
  Dictionaries: \<open>k in d\<close>, \<open>d.get(k, default)\<close>, \<open>d.pop(k, None)\<close> and \<open>d[k] = v\<close>, which
  keeps the place of a key that is present and appends a new one.
\<close>

fun dict_has :: "(string \<times> pyval) list \<Rightarrow> string \<Rightarrow> bool" where
  "dict_has [] k = False"
| "dict_has (p # ps) k = (fst p = k \<or> dict_has ps k)"

definition dict_get :: "(string \<times> pyval) list \<Rightarrow> string \<Rightarrow> pyval \<Rightarrow> pyval" where
  "dict_get d k dflt = (case map_of d k of None \<Rightarrow> dflt | Some v \<Rightarrow> v)"

definition dict_pop :: "string \<Rightarrow> (string \<times> pyval) list \<Rightarrow> (string \<times> pyval) list" where
  "dict_pop k d = filter (\<lambda>kv. fst kv \<noteq> k) d"

fun dict_set :: "(string \<times> pyval) list \<Rightarrow> string \<Rightarrow> pyval \<Rightarrow> (string \<times> pyval) list" where
  "dict_set [] k v = [(k, v)]"
| "dict_set (p # ps) k v = (if fst p = k then (k, v) # ps else p # dict_set ps k v)"

text \<open>
  Attribute and method access on a value of unknown shape. None of the built-in types
  has an attribute that the source asks for by name, so \<open>hasattr\<close> holds of objects
  only. \<open>v.get(k, default)\<close> is the dictionary method; an object is taken to have the
  attributes it carries and no methods.
\<close>

definition attribute_error :: "pyval \<Rightarrow> string \<Rightarrow> exn" where
  "attribute_error v name =
     Exn AttributeError ([sq] @ type_name v @ [sq] @ '' object has no attribute '' @ [sq] @ name @ [sq])"

fun py_hasattr :: "pyval \<Rightarrow> string \<Rightarrow> bool" where
  "py_hasattr (PObj cls attrs) name = dict_has attrs name"
| "py_hasattr v name = False"

fun py_getattr :: "pyval \<Rightarrow> string \<Rightarrow> exn + pyval" where
  "py_getattr (PObj cls attrs) name =
     (case map_of attrs name of
        None \<Rightarrow> Inl (attribute_error (PObj cls attrs) name)
      | Some v \<Rightarrow> Inr v)"
| "py_getattr v name = Inl (attribute_error v name)"

text \<open>\<open>getattr(v, name, default)\<close>.\<close>

fun py_getattr_default :: "pyval \<Rightarrow> string \<Rightarrow> pyval \<Rightarrow> pyval" where
  "py_getattr_default (PObj cls attrs) name dflt = dict_get attrs name dflt"
| "py_getattr_default v name dflt = dflt"

fun py_get :: "pyval \<Rightarrow> string \<Rightarrow> pyval \<Rightarrow> exn + pyval" where
  "py_get (PDict d) k dflt = Inr (dict_get d k dflt)"
| "py_get v k dflt = Inl (attribute_error v ''get'')"

text \<open>
  \<open>v[0]\<close>: the first element of a list, the first character of a string; a dictionary
  with string keys has no key \<open>0\<close>.
\<close>

fun py_index0 :: "pyval \<Rightarrow> exn + pyval" where
  "py_index0 (PList []) = Inl (Exn IndexError ''list index out of range'')"
| "py_index0 (PList (x # xs)) = Inr x"
| "py_index0 (PStr []) = Inl (Exn IndexError ''string index out of range'')"
| "py_index0 (PStr (c # cs)) = Inr (PStr [c])"
| "py_index0 (PDict d) = Inl (Exn KeyError ''0'')"
| "py_index0 v = Inl (Exn TypeError ([sq] @ type_name v @ [sq] @ '' object is not subscriptable''))"

text \<open>\<open>for x in v\<close>: the elements of a list, the keys of a dictionary, the characters of a string.\<close>

fun py_iter :: "pyval \<Rightarrow> exn + pyval list" where
  "py_iter (PList xs) = Inr xs"
| "py_iter (PDict d) = Inr (map (\<lambda>kv. PStr (fst kv)) d)"
| "py_iter (PStr s) = Inr (map (\<lambda>c. PStr [c]) s)"
| "py_iter v = Inl (Exn TypeError ([sq] @ type_name v @ [sq] @ '' object is not iterable''))"

text \<open>
  \<open>k in v\<close> for a string \<open>k\<close>: a key of a dictionary, an element of a list, a substring
  of a string.
\<close>

fun py_in :: "string \<Rightarrow> pyval \<Rightarrow> exn + bool" where
  "py_in k (PDict d) = Inr (dict_has d k)"
| "py_in k (PList xs) = Inr (PStr k \<in> set xs)"
| "py_in k (PStr s) = Inr (is_substr k s)"
| "py_in k v = Inl (Exn TypeError (''argument of type '' @ [sq] @ type_name v @ [sq] @ '' is not iterable''))"

text \<open>\<open>hash(v)\<close> succeeds except on lists and dictionaries.\<close>

fun hashable :: "pyval \<Rightarrow> bool" where
  "hashable (PList xs) = False"
| "hashable (PDict d) = False"
| "hashable v = True"

section \<open>The JSON codec (\<open>json.loads\<close>, \<open>json.dumps\<close>)\<close>

text \<open>
  \<open>json_loads\<close> returns \<open>None\<close> where \<open>json.loads\<close> raises \<open>JSONDecodeError\<close>. It accepts
  what the decoder of the standard library accepts: white space is the space, the tab,
  the line feed and the carriage return; a string may not hold a control character and
  its escapes are the eight simple ones and \<open>\u\<close> with four hexadecimal digits; a
  number is \<open>-?(0|[1-9][0-9]*)(\.[0-9]+)?([eE][-+]?[0-9]+)?\<close>, an integer when it has no
  fraction and no exponent; the constants are \<open>null\<close>, \<open>true\<close>, \<open>false\<close>, \<open>NaN\<close>,
  \<open>Infinity\<close> and \<open>-Infinity\<close>; a repeated key keeps its first place and its last
  value; nothing but white space may follow the value. An escape above
  \<open>00ff\<close> is read as the substitute character 26, since text outside Latin-1 is outside the model.

  A float is kept by the text it has in the source: its truth value and its \<open>str\<close> are
  those of Python for a text in the form that \<open>repr\<close> gives, such as \<open>0.0\<close> or
  \<open>1.5\<close>, and are not computed for another text of the same number, such as \<open>0.00\<close>,
  \<open>0e0\<close> or \<open>1.50\<close>.

  The text is first cut into tokens, one character at a time, and the tokens are then
  read with an explicit stack of the open containers, so both passes are structural
  recursions.
\<close>

datatype token =
    TLBrace | TRBrace | TLBracket | TRBracket | TComma | TColon
  | TString string | TAtom string

datatype lex_state =
    LIdle
  | LAtom string
  | LStr string
  | LEsc string
  | LHex string "nat list"

definition is_json_space :: "char \<Rightarrow> bool" where
  "is_json_space c = (c = CHR '' '' \<or> c = CHR 0x09 \<or> c = CHR 0x0A \<or> c = CHR 0x0D)"

definition punct_token :: "char \<Rightarrow> token option" where
  "punct_token c =
     (if c = CHR ''{'' then Some TLBrace else if c = CHR ''}'' then Some TRBrace
      else if c = CHR ''['' then Some TLBracket else if c = CHR '']'' then Some TRBracket
      else if c = CHR '','' then Some TComma else if c = CHR '':'' then Some TColon
      else None)"

definition simple_escape :: "char \<Rightarrow> char option" where
  "simple_escape c =
     (if c = CHR 0x22 then Some (CHR 0x22) else if c = CHR 0x5C then Some (CHR 0x5C)
      else if c = CHR ''/'' then Some (CHR ''/'') else if c = CHR ''b'' then Some (CHR 0x08)
      else if c = CHR ''f'' then Some (CHR 0x0C) else if c = CHR ''n'' then Some (CHR 0x0A)
      else if c = CHR ''r'' then Some (CHR 0x0D) else if c = CHR ''t'' then Some (CHR 0x09)
      else None)"

definition is_digit :: "char \<Rightarrow> bool" where
  "is_digit c = (let n = (of_char c :: nat) in 48 \<le> n \<and> n \<le> 57)"

definition digit_val :: "char \<Rightarrow> nat" where
  "digit_val c = of_char c - 48"

definition hex_val :: "char \<Rightarrow> nat option" where
  "hex_val c = (let n = (of_char c :: nat) in
     if 48 \<le> n \<and> n \<le> 57 then Some (n - 48)
     else if 97 \<le> n \<and> n \<le> 102 then Some (n - 87)
     else if 65 \<le> n \<and> n \<le> 70 then Some (n - 55)
     else None)"

definition unicode_char :: "nat list \<Rightarrow> char" where
  "unicode_char hs = (let n = foldl (\<lambda>a h. 16 * a + h) 0 hs in
     if n < 256 then char_of n else CHR 0x1A)"

fun lex :: "lex_state \<Rightarrow> token list \<Rightarrow> string \<Rightarrow> token list option" where
  "lex LIdle toks [] = Some (rev toks)"
| "lex (LAtom a) toks [] = Some (rev (TAtom (rev a) # toks))"
| "lex st toks [] = None"
| "lex LIdle toks (c # cs) =
     (if is_json_space c then lex LIdle toks cs
      else if c = CHR 0x22 then lex (LStr []) toks cs
      else case punct_token c of
             Some t \<Rightarrow> lex LIdle (t # toks) cs
           | None \<Rightarrow> lex (LAtom [c]) toks cs)"
| "lex (LAtom a) toks (c # cs) =
     (if is_json_space c then lex LIdle (TAtom (rev a) # toks) cs
      else if c = CHR 0x22 then lex (LStr []) (TAtom (rev a) # toks) cs
      else case punct_token c of
             Some t \<Rightarrow> lex LIdle (t # TAtom (rev a) # toks) cs
           | None \<Rightarrow> lex (LAtom (c # a)) toks cs)"
| "lex (LStr a) toks (c # cs) =
     (if c = CHR 0x22 then lex LIdle (TString (rev a) # toks) cs
      else if c = CHR 0x5C then lex (LEsc a) toks cs
      else if (of_char c :: nat) < 32 then None
      else lex (LStr (c # a)) toks cs)"
| "lex (LEsc a) toks (c # cs) =
     (case simple_escape c of
        Some d \<Rightarrow> lex (LStr (d # a)) toks cs
      | None \<Rightarrow> if c = CHR ''u'' then lex (LHex a []) toks cs else None)"
| "lex (LHex a hs) toks (c # cs) =
     (case hex_val c of
        None \<Rightarrow> None
      | Some h \<Rightarrow>
          if length hs = 3 then lex (LStr (unicode_char (hs @ [h]) # a)) toks cs
          else lex (LHex a (hs @ [h])) toks cs)"

text \<open>The number grammar, on the text of an atom.\<close>

definition all_digits :: "string \<Rightarrow> bool" where
  "all_digits s = (s \<noteq> [] \<and> list_all is_digit s)"

definition is_exponent :: "string \<Rightarrow> bool" where
  "is_exponent s =
     (case s of
        [] \<Rightarrow> True
      | e # r \<Rightarrow> (e = CHR ''e'' \<or> e = CHR ''E'')
                 \<and> (case r of
                       [] \<Rightarrow> False
                     | g # ds \<Rightarrow> if g = CHR ''+'' \<or> g = CHR ''-'' then all_digits ds
                                else all_digits r))"

definition is_fraction_exponent :: "string \<Rightarrow> bool" where
  "is_fraction_exponent s =
     (case s of
        [] \<Rightarrow> True
      | d # r \<Rightarrow> if d = CHR ''.''
                 then takeWhile is_digit r \<noteq> [] \<and> is_exponent (dropWhile is_digit r)
                 else is_exponent s)"

definition is_json_number :: "string \<Rightarrow> bool" where
  "is_json_number s =
     (let u = (case s of [] \<Rightarrow> [] | c # r \<Rightarrow> if c = CHR ''-'' then r else s);
          ip = takeWhile is_digit u in
      ip \<noteq> [] \<and> (ip = ''0'' \<or> hd ip \<noteq> CHR ''0'') \<and> is_fraction_exponent (dropWhile is_digit u))"

definition nat_of_digits :: "string \<Rightarrow> nat" where
  "nat_of_digits s = foldl (\<lambda>n c. 10 * n + digit_val c) 0 s"

definition int_of_literal :: "string \<Rightarrow> int" where
  "int_of_literal s =
     (case s of
        [] \<Rightarrow> 0
      | c # r \<Rightarrow> if c = CHR ''-'' then - int (nat_of_digits r) else int (nat_of_digits s))"

definition atom_value :: "string \<Rightarrow> pyval option" where
  "atom_value a =
     (if a = ''null'' then Some PNone
      else if a = ''true'' then Some (PBool True)
      else if a = ''false'' then Some (PBool False)
      else if a = ''NaN'' then Some (PFloat ''nan'')
      else if a = ''Infinity'' then Some (PFloat ''inf'')
      else if a = ''-Infinity'' then Some (PFloat ''-inf'')
      else if is_json_number a
      then (if list_all (\<lambda>c. is_digit c \<or> c = CHR ''-'') a
            then Some (PInt (int_of_literal a)) else Some (PFloat a))
      else None)"

text \<open>
  Reading the tokens. A frame is an open list with its elements so far, last first, or
  an open dictionary with its pairs so far and the key that awaits its value.
\<close>

datatype frame = FList "pyval list" | FDict "(string \<times> pyval) list" "string option"

datatype parse_mode =
    WantValue | WantValueOrEnd | WantKeyOrEnd | WantKey | WantColon | AfterValue
  | Finished pyval

fun complete :: "pyval \<Rightarrow> frame list \<Rightarrow> (parse_mode \<times> frame list) option" where
  "complete v [] = Some (Finished v, [])"
| "complete v (FList acc # st) = Some (AfterValue, FList (v # acc) # st)"
| "complete v (FDict acc (Some k) # st) = Some (AfterValue, FDict (dict_set acc k v) None # st)"
| "complete v (FDict acc None # st) = None"

fun parse_step :: "parse_mode \<Rightarrow> frame list \<Rightarrow> token \<Rightarrow> (parse_mode \<times> frame list) option" where
  "parse_step (Finished v) st t = None"
| "parse_step WantColon st t = (if t = TColon then Some (WantValue, st) else None)"
| "parse_step WantKey st t =
     (case (t, st) of
        (TString k, FDict acc None # st') \<Rightarrow> Some (WantColon, FDict acc (Some k) # st')
      | _ \<Rightarrow> None)"
| "parse_step WantKeyOrEnd st t =
     (case (t, st) of
        (TString k, FDict acc None # st') \<Rightarrow> Some (WantColon, FDict acc (Some k) # st')
      | (TRBrace, FDict acc None # st') \<Rightarrow> complete (PDict acc) st'
      | _ \<Rightarrow> None)"
| "parse_step AfterValue st t =
     (case (t, st) of
        (TComma, FList acc # st') \<Rightarrow> Some (WantValue, st)
      | (TRBracket, FList acc # st') \<Rightarrow> complete (PList (rev acc)) st'
      | (TComma, FDict acc None # st') \<Rightarrow> Some (WantKey, st)
      | (TRBrace, FDict acc None # st') \<Rightarrow> complete (PDict acc) st'
      | _ \<Rightarrow> None)"
| "parse_step m st t =
     (case t of
        TString s \<Rightarrow> complete (PStr s) st
      | TAtom a \<Rightarrow> (case atom_value a of None \<Rightarrow> None | Some v \<Rightarrow> complete v st)
      | TLBracket \<Rightarrow> Some (WantValueOrEnd, FList [] # st)
      | TLBrace \<Rightarrow> Some (WantKeyOrEnd, FDict [] None # st)
      | TRBracket \<Rightarrow>
          (case (m, st) of
             (WantValueOrEnd, FList acc # st') \<Rightarrow> complete (PList (rev acc)) st'
           | _ \<Rightarrow> None)
      | _ \<Rightarrow> None)"

fun parse_tokens :: "parse_mode \<Rightarrow> frame list \<Rightarrow> token list \<Rightarrow> pyval option" where
  "parse_tokens m st [] = (case m of Finished v \<Rightarrow> Some v | _ \<Rightarrow> None)"
| "parse_tokens m st (t # ts) =
     (case parse_step m st t of
        None \<Rightarrow> None
      | Some (m', st') \<Rightarrow> parse_tokens m' st' ts)"

definition json_loads :: "string \<Rightarrow> pyval option" where
  "json_loads s =
     (case lex LIdle [] s of
        None \<Rightarrow> None
      | Some toks \<Rightarrow> parse_tokens WantValue [] toks)"

text \<open>\<open>str(n)\<close> for an integer.\<close>

definition digit_char :: "nat \<Rightarrow> char" where
  "digit_char d = ''0123456789abcdef'' ! d"

function string_of_nat :: "nat \<Rightarrow> string" where
  "string_of_nat n =
     (if n < 10 then [digit_char n] else string_of_nat (n div 10) @ [digit_char (n mod 10)])"
  by pat_completeness auto
termination
  by (relation "measure id") auto

declare string_of_nat.simps [simp del]

definition string_of_int :: "int \<Rightarrow> string" where
  "string_of_int i = (if i < 0 then CHR ''-'' # string_of_nat (nat (- i)) else string_of_nat (nat i))"

text \<open>
  \<open>json.dumps\<close> with its defaults: \<open>", "\<close> and \<open>": "\<close> as separators, and every
  character outside the printable ASCII range escaped. An object is not serializable.
\<close>

definition json_escape_char :: "char \<Rightarrow> string" where
  "json_escape_char c =
     (if c = CHR 0x22 then [CHR 0x5C, CHR 0x22]
      else if c = CHR 0x5C then [CHR 0x5C, CHR 0x5C]
      else if c = CHR 0x0A then [CHR 0x5C, CHR ''n'']
      else if c = CHR 0x0D then [CHR 0x5C, CHR ''r'']
      else if c = CHR 0x09 then [CHR 0x5C, CHR ''t'']
      else if c = CHR 0x08 then [CHR 0x5C, CHR ''b'']
      else if c = CHR 0x0C then [CHR 0x5C, CHR ''f'']
      else let n = (of_char c :: nat) in
        if 32 \<le> n \<and> n \<le> 126 then [c]
        else [CHR 0x5C, CHR ''u'', CHR ''0'', CHR ''0'', digit_char (n div 16), digit_char (n mod 16)])"

definition json_string :: "string \<Rightarrow> string" where
  "json_string s = CHR 0x22 # concat (map json_escape_char s) @ [CHR 0x22]"

definition not_serializable :: "pyval \<Rightarrow> exn" where
  "not_serializable v =
     Exn TypeError (''Object of type '' @ type_name v @ '' is not JSON serializable'')"

function (sequential) json_dumps :: "pyval \<Rightarrow> exn + string" where
  "json_dumps PNone = Inr ''null''"
| "json_dumps (PBool b) = Inr (if b then ''true'' else ''false'')"
| "json_dumps (PInt i) = Inr (string_of_int i)"
| "json_dumps (PFloat r) =
     Inr (if r = ''nan'' then ''NaN'' else if r = ''inf'' then ''Infinity''
          else if r = ''-inf'' then ''-Infinity'' else r)"
| "json_dumps (PStr s) = Inr (json_string s)"
| "json_dumps (PList xs) =
     (case sequence (map json_dumps xs) of
        Inl e \<Rightarrow> Inl e
      | Inr parts \<Rightarrow> Inr (''['' @ join '', '' parts @ '']''))"
| "json_dumps (PDict d) =
     (case sequence (map (\<lambda>kv. case json_dumps (snd kv) of
                                   Inl e \<Rightarrow> Inl e
                                 | Inr t \<Rightarrow> Inr (json_string (fst kv) @ '': '' @ t)) d) of
        Inl e \<Rightarrow> Inl e
      | Inr parts \<Rightarrow> Inr (''{'' @ join '', '' parts @ ''}''))"
| "json_dumps (PObj cls attrs) = Inl (not_serializable (PObj cls attrs))"
  by pat_completeness auto
termination
proof (relation "measure size")
  show "wf (measure size)" by simp
next
  fix xs :: "pyval list" and x
  assume "x \<in> set xs"
  then have "size x < size_list size xs + 1"
    by (induction xs) auto
  then show "(x, PList xs) \<in> measure size"
    by simp
next
  fix d :: "(string \<times> pyval) list" and kv :: "string \<times> pyval"
  assume "kv \<in> set d"
  then have "size (snd kv) < size_list (size_prod (\<lambda>_. 0) size) d + 1"
    by (induction d) (auto simp: less_Suc_eq_le trans_le_add1)
  then show "(snd kv, PDict d) \<in> measure size"
    by simp
qed

text \<open>
  \<open>str(v)\<close>: a string is itself; every other value is shown as \<open>repr\<close> shows it. The
  default \<open>repr\<close> of an object shows its class and its address; the address is left out.
\<close>

definition repr_escape_char :: "char \<Rightarrow> char \<Rightarrow> string" where
  "repr_escape_char q c =
     (if c = q then [CHR 0x5C, q]
      else if c = CHR 0x5C then [CHR 0x5C, CHR 0x5C]
      else if c = CHR 0x0A then [CHR 0x5C, CHR ''n'']
      else if c = CHR 0x0D then [CHR 0x5C, CHR ''r'']
      else if c = CHR 0x09 then [CHR 0x5C, CHR ''t'']
      else let n = (of_char c :: nat) in
        if n < 32 \<or> (127 \<le> n \<and> n \<le> 160) \<or> n = 173
        then [CHR 0x5C, CHR ''x'', digit_char (n div 16), digit_char (n mod 16)]
        else [c])"

definition repr_string :: "string \<Rightarrow> string" where
  "repr_string s =
     (let q = (if CHR 0x27 \<in> set s \<and> CHR 0x22 \<notin> set s then CHR 0x22 else CHR 0x27)
      in q # concat (map (repr_escape_char q) s) @ [q])"

function (sequential) py_repr :: "pyval \<Rightarrow> string" where
  "py_repr PNone = ''None''"
| "py_repr (PBool b) = (if b then ''True'' else ''False'')"
| "py_repr (PInt i) = string_of_int i"
| "py_repr (PFloat r) = r"
| "py_repr (PStr s) = repr_string s"
| "py_repr (PList xs) = ''['' @ join '', '' (map py_repr xs) @ '']''"
| "py_repr (PDict d) =
     ''{'' @ join '', '' (map (\<lambda>kv. repr_string (fst kv) @ '': '' @ py_repr (snd kv)) d) @ ''}''"
| "py_repr (PObj cls attrs) = ''<'' @ cls @ '' object>''"
  by pat_completeness auto
termination
proof (relation "measure size")
  show "wf (measure size)" by simp
next
  fix xs :: "pyval list" and x
  assume "x \<in> set xs"
  then have "size x < size_list size xs + 1"
    by (induction xs) auto
  then show "(x, PList xs) \<in> measure size"
    by simp
next
  fix d :: "(string \<times> pyval) list" and kv :: "string \<times> pyval"
  assume "kv \<in> set d"
  then have "size (snd kv) < size_list (size_prod (\<lambda>_. 0) size) d + 1"
    by (induction d) (auto simp: less_Suc_eq_le trans_le_add1)
  then show "(snd kv, PDict d) \<in> measure size"
    by simp
qed

fun py_str :: "pyval \<Rightarrow> string" where
  "py_str (PStr s) = s"
| "py_str v = py_repr v"

section \<open>The schema sanitizer (\<open>clean_gemini_schema\<close>)\<close>

text \<open>
  On a dictionary the source pops \<open>additionalProperties\<close> and \<open>default\<close>, then, when
  \<open>type\<close> is the string \<open>string\<close> and \<open>format\<close> is present, tests
  \<open>schema["format"] not in {"enum", "date-time"}\<close> and pops \<open>format\<close>; the test hashes
  the format value, which raises \<open>TypeError\<close> on a list or a dictionary. Then every
  remaining value is replaced by its cleaned form, in order. A list is cleaned
  element by element; every other value is returned as it is.
\<close>

definition allowed_formats :: "pyval set" where
  "allowed_formats = {PStr ''enum'', PStr ''date-time''}"

definition unhashable_error :: "pyval \<Rightarrow> exn" where
  "unhashable_error v = Exn TypeError (''unhashable type: '' @ [sq] @ type_name v @ [sq])"

function (sequential) clean_gemini_schema :: "pyval \<Rightarrow> exn + pyval" where
  "clean_gemini_schema (PDict schema) =
     (let s1 = dict_pop ''additionalProperties'' schema;
          s2 = dict_pop ''default'' s1 in
      case (if dict_get s2 ''type'' PNone = PStr ''string'' \<and> dict_has s2 ''format''
            then (if \<not> hashable (dict_get s2 ''format'' PNone)
                  then Inl (unhashable_error (dict_get s2 ''format'' PNone))
                  else if dict_get s2 ''format'' PNone \<notin> allowed_formats
                  then Inr (dict_pop ''format'' s2)
                  else Inr s2)
            else Inr s2) of
        Inl e \<Rightarrow> Inl e
      | Inr s3 \<Rightarrow>
          (case sequence (map (\<lambda>kv. case clean_gemini_schema (snd kv) of
                                       Inl e \<Rightarrow> Inl e
                                     | Inr v \<Rightarrow> Inr (fst kv, v)) s3) of
             Inl e \<Rightarrow> Inl e
           | Inr s4 \<Rightarrow> Inr (PDict s4)))"
| "clean_gemini_schema (PList items) =
     (case sequence (map clean_gemini_schema items) of
        Inl e \<Rightarrow> Inl e
      | Inr cleaned \<Rightarrow> Inr (PList cleaned))"
| "clean_gemini_schema schema = Inr schema"
  by pat_completeness auto
termination
proof (relation "measure size")
  show "wf (measure size)" by simp
next
  fix schema :: "(string \<times> pyval) list" and s1 s2 s3 and kv :: "string \<times> pyval"
  assume s1: "s1 = dict_pop ''additionalProperties'' schema"
    and s2: "s2 = dict_pop ''default'' s1"
    and s3: "(if dict_get s2 ''type'' PNone = PStr ''string'' \<and> dict_has s2 ''format''
            then (if \<not> hashable (dict_get s2 ''format'' PNone)
                  then Inl (unhashable_error (dict_get s2 ''format'' PNone))
                  else if dict_get s2 ''format'' PNone \<notin> allowed_formats
                  then Inr (dict_pop ''format'' s2)
                  else Inr s2)
            else Inr s2) = Inr s3"
    and kv: "kv \<in> set s3"
  from s3 have "set s3 \<subseteq> set s2"
    by (auto simp: dict_pop_def split: if_splits)
  with s1 s2 kv have "kv \<in> set schema"
    by (auto simp: dict_pop_def)
  then have "size (snd kv) < size_list (size_prod (\<lambda>_. 0) size) schema + 1"
    by (induction schema) (auto simp: less_Suc_eq_le trans_le_add1)
  then show "(snd kv, PDict schema) \<in> measure size"
    by simp
next
  fix items :: "pyval list" and x
  assume "x \<in> set items"
  then have "size x < size_list size items + 1"
    by (induction items) auto
  then show "(x, PList items) \<in> measure size"
    by simp
qed

text \<open>No dictionary in the value, at any depth, has the key \<open>k\<close>.\<close>

fun free_of_key :: "string \<Rightarrow> pyval \<Rightarrow> bool" where
  "free_of_key k (PDict d) = (\<not> dict_has d k \<and> (\<forall>kv \<in> set d. free_of_key k (snd kv)))"
| "free_of_key k (PList xs) = (\<forall>x \<in> set xs. free_of_key k x)"
| "free_of_key k v = True"

text \<open>
  The sanitizer as the specification words it, for comparison with the source: in every
  mapping delete \<open>additionalProperties\<close> and \<open>default\<close>; if \<open>type\<close> is \<open>string\<close> and a
  \<open>format\<close> key is present whose value is not \<open>enum\<close> or \<open>date-time\<close>, delete \<open>format\<close>;
  recurse into all remaining mapping values and all list elements.
\<close>

definition spec_keeps :: "(string \<times> pyval) list \<Rightarrow> string \<Rightarrow> bool" where
  "spec_keeps d k =
     (k \<noteq> ''additionalProperties'' \<and> k \<noteq> ''default''
      \<and> \<not> (k = ''format'' \<and> map_of d ''type'' = Some (PStr ''string'')
             \<and> (\<forall>v. map_of d ''format'' = Some v \<longrightarrow> v \<notin> allowed_formats)))"

function (sequential) spec_sanitize :: "pyval \<Rightarrow> pyval" where
  "spec_sanitize (PDict d) =
     PDict (map (\<lambda>kv. (fst kv, spec_sanitize (snd kv))) (filter (\<lambda>kv. spec_keeps d (fst kv)) d))"
| "spec_sanitize (PList xs) = PList (map spec_sanitize xs)"
| "spec_sanitize v = v"
  by pat_completeness auto
termination
proof (relation "measure size")
  show "wf (measure size)" by simp
next
  fix d :: "(string \<times> pyval) list" and kv :: "string \<times> pyval"
  assume "kv \<in> set (filter (\<lambda>kv. spec_keeps d (fst kv)) d)"
  then have "kv \<in> set d" by simp
  then have "size (snd kv) < size_list (size_prod (\<lambda>_. 0) size) d + 1"
    by (induction d) (auto simp: less_Suc_eq_le trans_le_add1)
  then show "(snd kv, PDict d) \<in> measure size"
    by simp
next
  fix xs :: "pyval list" and x
  assume "x \<in> set xs"
  then have "size x < size_list size xs + 1"
    by (induction xs) auto
  then show "(x, PList xs) \<in> measure size"
    by simp
qed

text \<open>
  The values on which the membership test of the source hashes only hashable values:
  in every mapping whose \<open>type\<close> is \<open>string\<close>, a \<open>format\<close> value is not a list or a
  mapping.
\<close>

fun formats_hashable :: "pyval \<Rightarrow> bool" where
  "formats_hashable (PDict d) =
     ((map_of d ''type'' = Some (PStr ''string'')
         \<longrightarrow> (\<forall>f. map_of d ''format'' = Some f \<longrightarrow> hashable f))
      \<and> (\<forall>kv \<in> set d. formats_hashable (snd kv)))"
| "formats_hashable (PList xs) = (\<forall>x \<in> set xs. formats_hashable x)"
| "formats_hashable v = True"

section \<open>The error classifier\<close>

subsection \<open>The regular expressions of the source\<close>

text \<open>\<open>s.replace(old, new)\<close> for a non-empty \<open>old\<close>: left to right, without overlap.\<close>

fun replace :: "string \<Rightarrow> string \<Rightarrow> string \<Rightarrow> string" where
  "replace old new [] = []"
| "replace old new (c # cs) =
     (if old \<noteq> [] \<and> prefix old (c # cs)
      then new @ replace old new (drop (length old) (c # cs))
      else c # replace old new cs)"

text \<open>
  \<open>re.search(r"b'(\{.*)", s, re.DOTALL)\<close>: group 1 starts at the brace of the first
  \<open>b'{\<close> and runs to the end of the text.
\<close>

fun bytes_match :: "string \<Rightarrow> string option" where
  "bytes_match [] = None"
| "bytes_match (c # cs) =
     (if prefix [CHR ''b'', CHR 0x27, CHR ''{''] (c # cs) then Some (drop 2 (c # cs))
      else bytes_match cs)"

text \<open>
  \<open>re.search(r'\{.*\}', s, re.DOTALL)\<close>: from the first opening brace to the last
  closing brace after it.
\<close>

definition upto_last_brace :: "string \<Rightarrow> string" where
  "upto_last_brace s = rev (dropWhile (\<lambda>c. c \<noteq> CHR ''}'') (rev s))"

definition json_match :: "string \<Rightarrow> string option" where
  "json_match s =
     (let t = dropWhile (\<lambda>c. c \<noteq> CHR ''{'') s in
      if t \<noteq> [] \<and> CHR ''}'' \<in> set (tl t) then Some (upto_last_brace t) else None)"

text \<open>\<open>re.search(r'(\d+)', s)\<close>: the first run of digits.\<close>

definition first_digits :: "string \<Rightarrow> string option" where
  "first_digits s =
     (let t = dropWhile (\<lambda>c. \<not> is_digit c) s in
      if t = [] then None else Some (takeWhile is_digit t))"

text \<open>
  \<open>re.search(r'retryDelay["\']?\s*:\s*["\']?(\d+)', s, re.IGNORECASE)\<close>. No step of
  this pattern can give back a character that a later step accepts, so matching at one
  place needs no backtracking; the search tries every place from the left.
\<close>

definition skip_quote :: "string \<Rightarrow> string" where
  "skip_quote s = (case s of [] \<Rightarrow> [] | c # cs \<Rightarrow> if c = CHR 0x22 \<or> c = CHR 0x27 then cs else s)"

definition retry_match_here :: "string \<Rightarrow> string option" where
  "retry_match_here s =
     (if lower (take 10 s) = ''retrydelay'' then
        (case dropWhile is_space (skip_quote (drop 10 s)) of
           [] \<Rightarrow> None
         | c # r \<Rightarrow>
             if c = CHR '':'' then
               (let d = takeWhile is_digit (skip_quote (dropWhile is_space r))
                in if d = [] then None else Some d)
             else None)
      else None)"

fun retry_match :: "string \<Rightarrow> string option" where
  "retry_match [] = None"
| "retry_match (c # cs) =
     (case retry_match_here (c # cs) of
        Some d \<Rightarrow> Some d
      | None \<Rightarrow> retry_match cs)"

subsection \<open>\<open>parse_gemini_error_details\<close>\<close>

text \<open>
  The loop over \<open>range(len(json_str) - 1, -1, -1)\<close>: the longest prefix that ends in a
  closing brace and parses. The argument is the text reversed, so that its tails are
  the prefixes of the text, longest first.
\<close>

fun truncated_parse :: "string \<Rightarrow> pyval option" where
  "truncated_parse [] = None"
| "truncated_parse (c # cs) =
     (if c = CHR ''}'' then
        (case json_loads (rev (c # cs)) of
           Some v \<Rightarrow> Some v
         | None \<Rightarrow> truncated_parse cs)
      else truncated_parse cs)"

definition quota_failure_type :: string where
  "quota_failure_type = ''type.googleapis.com/google.rpc.QuotaFailure''"

definition retry_info_type :: string where
  "retry_info_type = ''type.googleapis.com/google.rpc.RetryInfo''"

text \<open>One round of the loop over the \<open>details\<close> of the payload.\<close>

definition detail_step :: "(string \<times> pyval) list \<Rightarrow> pyval \<Rightarrow> exn + (string \<times> pyval) list" where
  "detail_step details detail =
     sbind (py_get detail ''@type'' PNone) (\<lambda>ty.
       if ty = PStr quota_failure_type then
         sbind (py_get detail ''violations'' (PList [])) (\<lambda>violations.
           if truthy violations then
             sbind (py_index0 violations) (\<lambda>violation.
             sbind (py_get violation ''quotaMetric'' (PStr [])) (\<lambda>metric.
             sbind (py_get violation ''quotaId'' (PStr [])) (\<lambda>qid.
             sbind (py_get violation ''quotaValue'' (PStr [])) (\<lambda>qvalue.
             sbind (py_get violation ''quotaDimensions'' (PDict [])) (\<lambda>dims.
             sbind (py_get dims ''model'' (PStr [])) (\<lambda>qmodel.
               Inr (dict_set (dict_set (dict_set (dict_set details
                      ''quota_metric'' metric) ''quota_id'' qid) ''quota_value'' qvalue)
                      ''quota_model'' qmodel)))))))
           else Inr details)
       else if ty = PStr retry_info_type then
         sbind (py_get detail ''retryDelay'' (PStr [])) (\<lambda>delay.
           Inr (dict_set details ''retry_delay'' delay))
       else Inr details)"

fun detail_loop :: "(string \<times> pyval) list \<Rightarrow> pyval list \<Rightarrow> exn + (string \<times> pyval) list" where
  "detail_loop details [] = Inr details"
| "detail_loop details (detail # rest) =
     sbind (detail_step details detail) (\<lambda>details'. detail_loop details' rest)"

text \<open>The body of the \<open>try\<close> block.\<close>

definition decode_error :: exn where
  "decode_error = Exn JSONDecodeError ''Could not parse truncated JSON''"

definition find_error_json :: "string \<Rightarrow> exn + pyval" where
  "find_error_json error_msg =
     (case bytes_match error_msg of
        Some g \<Rightarrow>
          (let j1 = (if endswith g [CHR 0x27] then butlast g else g);
               json_str = replace [CHR 0x5C, CHR 0x22] [CHR 0x22]
                            (replace [CHR 0x5C, CHR ''n''] [CHR 0x0A] j1)
           in case json_loads json_str of
                Some v \<Rightarrow> Inr v
              | None \<Rightarrow>
                  (case truncated_parse (rev json_str) of
                     Some v \<Rightarrow> Inr v
                   | None \<Rightarrow> Inl decode_error))
      | None \<Rightarrow>
          (case json_match error_msg of
             Some json_str \<Rightarrow>
               (case json_loads json_str of
                  Some v \<Rightarrow> Inr v
                | None \<Rightarrow> Inl (Exn JSONDecodeError ''Expecting value''))
           | None \<Rightarrow> Inl (Exn ValueError ''No JSON found in error message'')))"

definition parse_details_body :: "string \<Rightarrow> exn + (string \<times> pyval) list" where
  "parse_details_body error_msg =
     sbind (find_error_json error_msg) (\<lambda>error_json.
     sbind (py_get error_json ''error'' (PDict [])) (\<lambda>err.
     sbind (py_get err ''code'' PNone) (\<lambda>code.
     sbind (py_get err ''status'' PNone) (\<lambda>status.
     sbind (py_get err ''message'' (PStr [])) (\<lambda>message.
     sbind (py_get err ''details'' (PList [])) (\<lambda>ds.
     sbind (py_iter ds) (\<lambda>items.
       detail_loop [(''error_code'', code), (''error_status'', status), (''message'', message)]
                   items)))))))"

text \<open>
  The \<open>except\<close> clause names \<open>JSONDecodeError\<close>, \<open>KeyError\<close>, \<open>AttributeError\<close> and
  \<open>ValueError\<close>; every other exception leaves the function.
\<close>

definition caught_by_parse :: "exn \<Rightarrow> bool" where
  "caught_by_parse e =
     (exn_cls e \<in> {JSONDecodeError, KeyError, AttributeError, ValueError, ValidationError})"

definition parse_gemini_error_details :: "string \<Rightarrow> exn + (string \<times> pyval) list" where
  "parse_gemini_error_details error_msg =
     (case parse_details_body error_msg of
        Inr details \<Rightarrow> Inr details
      | Inl e \<Rightarrow>
          if caught_by_parse e
          then Inr [(''parsing_failed'', PBool True),
                    (''raw_snippet'', PStr (if length error_msg > 500
                                            then take 500 error_msg @ ''...''
                                            else error_msg))]
          else Inl e)"

subsection \<open>\<open>extract_retry_delay\<close>\<close>

text \<open>
  The loop over the details returns from the function at the first \<open>RetryInfo\<close> entry
  whose delay holds a digit; \<open>None\<close> is the loop running to its end.
\<close>

definition not_a_string :: exn where
  "not_a_string = Exn TypeError ''expected string or bytes-like object''"

fun retry_loop :: "pyval list \<Rightarrow> exn + nat option" where
  "retry_loop [] = Inr None"
| "retry_loop (detail # rest) =
     sbind (py_get detail ''@type'' PNone) (\<lambda>ty.
       if ty = PStr retry_info_type then
         sbind (py_get detail ''retryDelay'' (PStr ''60s'')) (\<lambda>retry_delay_str.
           case retry_delay_str of
             PStr t \<Rightarrow>
               (case first_digits t of
                  Some d \<Rightarrow> Inr (Some (nat_of_digits d))
                | None \<Rightarrow> retry_loop rest)
           | _ \<Rightarrow> Inl not_a_string)
       else retry_loop rest)"

text \<open>\<open>error_json['error']['details']\<close>, after the two membership tests have held.\<close>

definition subscript_error :: "pyval \<Rightarrow> exn" where
  "subscript_error v =
     (case v of
        PStr s \<Rightarrow> Exn TypeError ''string indices must be integers''
      | PList xs \<Rightarrow> Exn TypeError ''list indices must be integers or slices, not str''
      | _ \<Rightarrow> Exn TypeError ([sq] @ type_name v @ [sq] @ '' object is not subscriptable''))"

definition py_item :: "pyval \<Rightarrow> string \<Rightarrow> exn + pyval" where
  "py_item v k =
     (case v of
        PDict d \<Rightarrow> (case map_of d k of
                      Some x \<Rightarrow> Inr x
                    | None \<Rightarrow> Inl (Exn KeyError (repr_string k)))
      | _ \<Rightarrow> Inl (subscript_error v))"

definition retry_delay_body :: "string \<Rightarrow> exn + nat option" where
  "retry_delay_body error_msg =
     (case json_match error_msg of
        None \<Rightarrow> Inr None
      | Some json_str \<Rightarrow>
          (case json_loads json_str of
             None \<Rightarrow> Inl (Exn JSONDecodeError ''Expecting value'')
           | Some error_json \<Rightarrow>
               sbind (py_in ''error'' error_json) (\<lambda>has_error.
                 if has_error then
                   sbind (py_item error_json ''error'') (\<lambda>err.
                   sbind (py_in ''details'' err) (\<lambda>has_details.
                     if has_details then
                       sbind (py_item err ''details'') (\<lambda>ds.
                       sbind (py_iter ds) retry_loop)
                     else Inr None))
                 else Inr None)))"

definition caught_by_retry :: "exn \<Rightarrow> bool" where
  "caught_by_retry e = (exn_cls e \<in> {JSONDecodeError, KeyError, ValueError, ValidationError})"

definition extract_retry_delay :: "string \<Rightarrow> exn + nat" where
  "extract_retry_delay error_msg =
     (let fallback = (case retry_match error_msg of
                        Some d \<Rightarrow> nat_of_digits d
                      | None \<Rightarrow> 60)
      in case retry_delay_body error_msg of
           Inr (Some n) \<Rightarrow> Inr n
         | Inr None \<Rightarrow> Inr fallback
         | Inl e \<Rightarrow> if caught_by_retry e then Inr fallback else Inl e)"

subsection \<open>\<open>handle_quota_rate_limit_error\<close>\<close>

text \<open>
  The handler takes the exception, the request and the configuration; it uses the
  request and the configuration for its log lines only, and the exception through its
  text \<open>error_str\<close>. It returns an \<open>HTTPException\<close>, which is its status code and its
  detail, unless one of the two parsers or \<open>.lower()\<close> on the metric raises.
\<close>

record http_exception =
  status_code :: int
  detail :: pyval

definition exhaustion_indicators :: "string list" where
  "exhaustion_indicators =
     [''requests_per_day'', ''generate_content_free_tier_requests'',
      ''tokens_per_day'', ''characters_per_day'']"

definition rate_limit_indicators :: "string list" where
  "rate_limit_indicators =
     [''requests_per_minute'', ''tokens_per_minute'', ''characters_per_minute'']"

definition py_lower :: "pyval \<Rightarrow> exn + string" where
  "py_lower v = (case v of PStr s \<Rightarrow> Inr (lower s) | _ \<Rightarrow> Inl (attribute_error v ''lower''))"

definition is_quota_exhausted :: "string \<Rightarrow> string \<Rightarrow> bool" where
  "is_quota_exhausted quota_metric error_str =
     (if \<exists>i \<in> set exhaustion_indicators. is_substr i quota_metric then True
      else if \<exists>i \<in> set rate_limit_indicators. is_substr i quota_metric then False
      else is_substr ''quota'' (lower error_str) \<or> is_substr ''free_tier'' (lower error_str))"

definition handle_quota_rate_limit_error :: "string \<Rightarrow> exn + http_exception" where
  "handle_quota_rate_limit_error error_str =
     sbind (parse_gemini_error_details error_str) (\<lambda>quota_details.
     sbind (extract_retry_delay error_str) (\<lambda>retry_delay.
     sbind (py_lower (dict_get quota_details ''quota_metric'' (PStr []))) (\<lambda>quota_metric.
       if is_quota_exhausted quota_metric error_str then
         Inr \<lparr> status_code = 400,
               detail = dict_get quota_details ''message''
                          (PStr ''Quota exhausted. Please check your quota limits.'') \<rparr>
       else
         Inr \<lparr> status_code = 500,
               detail = PStr (py_str (dict_get quota_details ''message''
                                       (PStr ''Rate limited. Too many requests.''))
                              @ '' (Google suggests waiting '' @ string_of_nat retry_delay
                              @ ''s, but Claude Code will retry faster)'') \<rparr>)))"

section \<open>The request translator (\<open>convert_anthropic_to_litellm\<close>)\<close>

text \<open>
  The request has passed the validation of its Pydantic model, so the fields that the
  model types are typed here: a content block is one of the four block classes, a role
  is \<open>user\<close> or \<open>assistant\<close>. The fields that the model leaves open (\<open>Dict[str, Any]\<close>,
  the content of a tool result) are Python values.
\<close>

datatype content_block =
    ContentBlockText string
  | ContentBlockImage "(string \<times> pyval) list"
  | ContentBlockToolUse string string "(string \<times> pyval) list"
  | ContentBlockToolResult string pyval

datatype message_content = StrContent string | BlockContent "content_block list"

datatype role = User | Assistant

record message =
  msg_role :: role
  msg_content :: message_content

definition role_name :: "role \<Rightarrow> string" where
  "role_name r = (case r of User \<Rightarrow> ''user'' | Assistant \<Rightarrow> ''assistant'')"

subsection \<open>\<open>parse_tool_result_content\<close>\<close>

text \<open>\<open>"\n".join(result_parts)\<close> raises \<open>TypeError\<close> on a part that is not a string.\<close>

fun str_parts :: "nat \<Rightarrow> pyval list \<Rightarrow> exn + string list" where
  "str_parts i [] = Inr []"
| "str_parts i (PStr s # ps) =
     (case str_parts (Suc i) ps of Inl e \<Rightarrow> Inl e | Inr ss \<Rightarrow> Inr (s # ss))"
| "str_parts i (p # ps) =
     Inl (Exn TypeError (''sequence item '' @ string_of_nat i @ '': expected str instance, ''
                          @ type_name p @ '' found''))"

text \<open>\<open>json.dumps(item)\<close> in a \<open>try\<close> whose bare \<open>except\<close> falls back on \<open>str(item)\<close>.\<close>

definition dumps_or_str :: "pyval \<Rightarrow> string" where
  "dumps_or_str v = (case json_dumps v of Inr t \<Rightarrow> t | Inl e \<Rightarrow> py_str v)"

text \<open>One round of the loop over a list content: the part it appends, if any.\<close>

definition result_part :: "pyval \<Rightarrow> pyval option" where
  "result_part item =
     (case item of
        PDict d \<Rightarrow>
          if dict_get d ''type'' PNone = PStr ''text'' then Some (dict_get d ''text'' (PStr []))
          else if dict_has d ''text'' then Some (dict_get d ''text'' (PStr []))
          else Some (PStr (dumps_or_str item))
      | PStr s \<Rightarrow> Some item
      | _ \<Rightarrow> None)"

definition parse_tool_result_content :: "pyval \<Rightarrow> exn + pyval" where
  "parse_tool_result_content content =
     (case content of
        PNone \<Rightarrow> Inr (PStr ''No content provided'')
      | PStr s \<Rightarrow> Inr content
      | PList items \<Rightarrow>
          (case str_parts 0 (List.map_filter result_part items) of
             Inl e \<Rightarrow> Inl e
           | Inr parts \<Rightarrow> Inr (PStr (strip (join [CHR 0x0A] parts))))
      | PDict d \<Rightarrow>
          if dict_get d ''type'' PNone = PStr ''text'' then Inr (dict_get d ''text'' (PStr []))
          else Inr (PStr (dumps_or_str content))
      | _ \<Rightarrow> Inr (PStr (py_str content)))"

subsection \<open>The loop over the content blocks of one message\<close>

text \<open>
  The four lists that the source resets for every message, and the backend messages
  appended to \<open>litellm_messages\<close> while this message is processed.
\<close>

record accumulators =
  text_parts :: "string list"
  image_parts :: "pyval list"
  tool_calls :: "pyval list"
  pending_tool_messages :: "pyval list"
  emitted :: "pyval list"

definition empty_accumulators :: accumulators where
  "empty_accumulators =
     \<lparr> text_parts = [], image_parts = [], tool_calls = [], pending_tool_messages = [],
       emitted = [] \<rparr>"

text \<open>
  The content of a flushed message: the text parts are joined without a separator and
  stripped; the content is the bare text when the text part is the only part, and the
  list of parts otherwise.
\<close>

definition content_parts_of :: "string list \<Rightarrow> pyval list \<Rightarrow> pyval list" where
  "content_parts_of texts images =
     (let text_content = strip (concat texts) in
      (if text_content \<noteq> []
       then [PDict [(''type'', PStr ''text''), (''text'', PStr text_content)]] else [])
      @ images)"

definition is_text_part :: "pyval \<Rightarrow> bool" where
  "is_text_part p = (case p of PDict d \<Rightarrow> map_of d ''type'' = Some (PStr ''text'') | _ \<Rightarrow> False)"

definition collapse_content :: "pyval list \<Rightarrow> pyval" where
  "collapse_content parts =
     (case parts of
        [p] \<Rightarrow> if is_text_part p
               then (case p of PDict d \<Rightarrow> dict_get d ''text'' PNone | _ \<Rightarrow> PList parts)
               else PList parts
      | _ \<Rightarrow> PList parts)"

definition user_message :: "string list \<Rightarrow> pyval list \<Rightarrow> pyval" where
  "user_message texts images =
     PDict [(''role'', PStr ''user''),
            (''content'', collapse_content (content_parts_of texts images))]"

definition tool_message :: "string \<Rightarrow> pyval \<Rightarrow> pyval" where
  "tool_message tool_use_id parsed_content =
     PDict [(''role'', PStr ''tool''), (''tool_call_id'', PStr tool_use_id),
            (''content'', parsed_content)]"

definition image_part :: "(string \<times> pyval) list \<Rightarrow> pyval option" where
  "image_part source =
     (if dict_get source ''type'' PNone = PStr ''base64''
         \<and> dict_has source ''media_type'' \<and> dict_has source ''data''
      then Some (PDict [(''type'', PStr ''image_url''),
                        (''image_url'',
                         PDict [(''url'', PStr (''data:'' @ py_str (dict_get source ''media_type'' PNone)
                                               @ '';base64,'' @ py_str (dict_get source ''data'' PNone)))])])
      else None)"

fun block_step :: "role \<Rightarrow> accumulators \<Rightarrow> content_block \<Rightarrow> exn + accumulators" where
  "block_step r a (ContentBlockText t) = Inr (a\<lparr>text_parts := text_parts a @ [t]\<rparr>)"
| "block_step r a (ContentBlockImage source) =
     (case image_part source of
        Some p \<Rightarrow> Inr (a\<lparr>image_parts := image_parts a @ [p]\<rparr>)
      | None \<Rightarrow> Inr a)"
| "block_step r a (ContentBlockToolUse tid name input) =
     (if r = Assistant then
        (case json_dumps (PDict input) of
           Inl e \<Rightarrow> Inl e
         | Inr arguments \<Rightarrow>
             Inr (a\<lparr>tool_calls := tool_calls a @
                    [PDict [(''id'', PStr tid), (''type'', PStr ''function''),
                            (''function'', PDict [(''name'', PStr name),
                                                  (''arguments'', PStr arguments)])]]\<rparr>))
      else Inr a)"
| "block_step r a (ContentBlockToolResult tool_use_id content) =
     (if r = User then
        (let a1 = (if text_parts a \<noteq> [] \<or> image_parts a \<noteq> []
                   then a\<lparr>emitted := emitted a @ [user_message (text_parts a) (image_parts a)],
                          text_parts := [], image_parts := []\<rparr>
                   else a)
         in case parse_tool_result_content content of
              Inl e \<Rightarrow> Inl e
            | Inr parsed_content \<Rightarrow>
                Inr (a1\<lparr>pending_tool_messages := pending_tool_messages a1 @
                          [tool_message tool_use_id parsed_content]\<rparr>))
      else Inr a)"

fun block_loop :: "role \<Rightarrow> accumulators \<Rightarrow> content_block list \<Rightarrow> exn + accumulators" where
  "block_loop r a [] = Inr a"
| "block_loop r a (b # bs) =
     (case block_step r a b of Inl e \<Rightarrow> Inl e | Inr a' \<Rightarrow> block_loop r a' bs)"

text \<open>
  The end of a message. For a user, what is left of the text and the images is flushed
  and the pending tool messages follow. For an assistant, the message is appended only
  if its content or its tool calls are true.
\<close>

definition finalize_message :: "role \<Rightarrow> accumulators \<Rightarrow> pyval list" where
  "finalize_message r a =
     (case r of
        User \<Rightarrow>
          emitted a
          @ (if text_parts a \<noteq> [] \<or> image_parts a \<noteq> []
             then [user_message (text_parts a) (image_parts a)] else [])
          @ pending_tool_messages a
      | Assistant \<Rightarrow>
          (let parts = content_parts_of (text_parts a) (image_parts a);
               content = (if parts \<noteq> [] then collapse_content parts else PNone)
           in emitted a
              @ (if truthy content \<or> tool_calls a \<noteq> []
                 then [PDict ([(''role'', PStr ''assistant''), (''content'', content)]
                              @ (if tool_calls a \<noteq> []
                                 then [(''tool_calls'', PList (tool_calls a))] else []))]
                 else [])))"

text \<open>The backend messages that one source message contributes.\<close>

definition convert_message :: "message \<Rightarrow> exn + pyval list" where
  "convert_message msg =
     (case msg_content msg of
        StrContent s \<Rightarrow>
          Inr [PDict [(''role'', PStr (role_name (msg_role msg))), (''content'', PStr s)]]
      | BlockContent blocks \<Rightarrow>
          (case block_loop (msg_role msg) empty_accumulators blocks of
             Inl e \<Rightarrow> Inl e
           | Inr a \<Rightarrow> Inr (finalize_message (msg_role msg) a)))"

text \<open>
  The system prompt is a string or a list of text blocks, joined by a blank line; it
  becomes the first backend message when it is not blank.
\<close>

datatype system_content = SystemStr string | SystemBlocks "string list"

definition system_messages :: "system_content option \<Rightarrow> pyval list" where
  "system_messages system =
     (case system of
        None \<Rightarrow> []
      | Some sys \<Rightarrow>
          (let system_text = (case sys of
                                SystemStr s \<Rightarrow> s
                              | SystemBlocks ts \<Rightarrow> join [CHR 0x0A, CHR 0x0A] ts)
           in if (case sys of SystemStr s \<Rightarrow> s \<noteq> [] | SystemBlocks ts \<Rightarrow> ts \<noteq> [])
                 \<and> strip system_text \<noteq> []
              then [PDict [(''role'', PStr ''system''), (''content'', PStr (strip system_text))]]
              else []))"

text \<open>\<open>litellm_messages\<close>, the \<open>messages\<close> field of the backend request.\<close>

fun convert_messages :: "message list \<Rightarrow> exn + pyval list" where
  "convert_messages [] = Inr []"
| "convert_messages (m # ms) =
     (case convert_message m of
        Inl e \<Rightarrow> Inl e
      | Inr out \<Rightarrow> (case convert_messages ms of Inl e \<Rightarrow> Inl e | Inr rest \<Rightarrow> Inr (out @ rest)))"

definition litellm_messages :: "system_content option \<Rightarrow> message list \<Rightarrow> exn + pyval list" where
  "litellm_messages system msgs =
     (case convert_messages msgs of
        Inl e \<Rightarrow> Inl e
      | Inr out \<Rightarrow> Inr (system_messages system @ out))"

text \<open>
  For the statement of the splitting rule: the blocks that are text or image blocks, the
  texts among them and the image parts that the source builds from them.
\<close>

fun is_text_or_image :: "content_block \<Rightarrow> bool" where
  "is_text_or_image (ContentBlockText t) = True"
| "is_text_or_image (ContentBlockImage source) = True"
| "is_text_or_image b = False"

fun block_texts :: "content_block list \<Rightarrow> string list" where
  "block_texts [] = []"
| "block_texts (ContentBlockText t # bs) = t # block_texts bs"
| "block_texts (b # bs) = block_texts bs"

fun block_images :: "content_block list \<Rightarrow> pyval list" where
  "block_images [] = []"
| "block_images (ContentBlockImage source # bs) =
     (case image_part source of Some p \<Rightarrow> p # block_images bs | None \<Rightarrow> block_images bs)"
| "block_images (b # bs) = block_images bs"

section \<open>The response translator (\<open>convert_litellm_to_anthropic\<close>)\<close>

text \<open>The stop reasons of \<open>Constants\<close>.\<close>

definition STOP_END_TURN :: string where "STOP_END_TURN = ''end_turn''"
definition STOP_MAX_TOKENS :: string where "STOP_MAX_TOKENS = ''max_tokens''"
definition STOP_TOOL_USE :: string where "STOP_TOOL_USE = ''tool_use''"
definition STOP_ERROR :: string where "STOP_ERROR = ''error''"

text \<open>
  The frontend response, \<open>MessagesResponse\<close> with its \<open>Usage\<close>; the role is always
  \<open>assistant\<close>, the stop sequence always \<open>None\<close> and the two cache counters always 0.
\<close>

datatype response_block =
    ResponseText string
  | ResponseToolUse string string "(string \<times> pyval) list"

record usage =
  usage_input_tokens :: int
  usage_output_tokens :: int
  cache_creation_input_tokens :: int
  cache_read_input_tokens :: int

record messages_response =
  response_id :: string
  response_model :: string
  response_role :: string
  response_content :: "response_block list"
  stop_reason :: string
  stop_sequence :: "string option"
  response_usage :: usage

text \<open>
  The request, as far as the translator reads it: \<open>original_model or model\<close> is echoed
  in the response.
\<close>

record messages_request =
  request_model :: string
  original_model :: "string option"

definition echoed_model :: "messages_request \<Rightarrow> string" where
  "echoed_model req =
     (case original_model req of
        Some m \<Rightarrow> if m \<noteq> [] then m else request_model req
      | None \<Rightarrow> request_model req)"

text \<open>
  What the translator takes from outside: the identifiers that \<open>uuid.uuid4()\<close> draws (one
  for the message, one for each tool call by its place in the list, one for the degraded
  response) and the coercion that Pydantic applies to an integer field (\<open>None\<close> where it
  rejects the value).
\<close>

record translator_env =
  message_uuid :: string
  tool_uuid :: "nat \<Rightarrow> string"
  error_uuid :: string
  as_int :: "pyval \<Rightarrow> int option"

definition validation_error :: "string \<Rightarrow> exn" where
  "validation_error field = Exn ValidationError (''1 validation error: '' @ field)"

text \<open>A field typed \<open>str\<close> accepts a string; a field typed \<open>Dict[str, Any]\<close> a dictionary.\<close>

definition as_str :: "string \<Rightarrow> pyval \<Rightarrow> exn + string" where
  "as_str field v = (case v of PStr s \<Rightarrow> Inr s | _ \<Rightarrow> Inl (validation_error field))"

definition as_dict :: "string \<Rightarrow> pyval \<Rightarrow> exn + (string \<times> pyval) list" where
  "as_dict field v = (case v of PDict d \<Rightarrow> Inr d | _ \<Rightarrow> Inl (validation_error field))"

subsection \<open>Reading the two shapes of a backend response\<close>

text \<open>
  The fields read from the response: the text, the tool calls, the finish reason, the
  identifier and the two token counts.
\<close>

record extracted =
  content_text :: pyval
  ex_tool_calls :: pyval
  finish_reason :: pyval
  ex_response_id :: pyval
  prompt_tokens :: pyval
  completion_tokens :: pyval

definition extract_object :: "translator_env \<Rightarrow> pyval \<Rightarrow> exn + extracted" where
  "extract_object env r =
     sbind (py_getattr r ''choices'') (\<lambda>choices.
     sbind (if truthy choices
            then sbind (py_index0 choices) (\<lambda>c. py_getattr c ''message'')
            else Inr PNone) (\<lambda>message.
     sbind (if truthy choices
            then sbind (py_index0 choices) (\<lambda>c. py_getattr c ''finish_reason'')
            else Inr (PStr ''stop'')) (\<lambda>fr.
     sbind (py_getattr r ''usage'') (\<lambda>u.
       Inr \<lparr> content_text = py_or (py_getattr_default message ''content'' (PStr [])) (PStr []),
             ex_tool_calls = py_getattr_default message ''tool_calls'' PNone,
             finish_reason = fr,
             ex_response_id = py_getattr_default r ''id'' (PStr (''msg_'' @ message_uuid env)),
             prompt_tokens = py_getattr_default u ''prompt_tokens'' (PInt 0),
             completion_tokens = py_getattr_default u ''completion_tokens'' (PInt 0) \<rparr>))))"

definition extract_dict :: "translator_env \<Rightarrow> (string \<times> pyval) list \<Rightarrow> exn + extracted" where
  "extract_dict env d =
     (let choices = dict_get d ''choices'' (PList []) in
      sbind (if truthy choices
             then sbind (py_index0 choices) (\<lambda>c. py_get c ''message'' (PDict []))
             else Inr (PDict [])) (\<lambda>message.
      sbind (py_get message ''content'' (PStr [])) (\<lambda>content.
      sbind (py_get message ''tool_calls'' PNone) (\<lambda>tcs.
      sbind (if truthy choices
             then sbind (py_index0 choices) (\<lambda>c. py_get c ''finish_reason'' (PStr ''stop''))
             else Inr (PStr ''stop'')) (\<lambda>fr.
      sbind (py_get (dict_get d ''usage'' (PDict [])) ''prompt_tokens'' (PInt 0)) (\<lambda>pt.
      sbind (py_get (dict_get d ''usage'' (PDict [])) ''completion_tokens'' (PInt 0)) (\<lambda>ct.
        Inr \<lparr> content_text = py_or content (PStr []),
              ex_tool_calls = tcs,
              finish_reason = fr,
              ex_response_id = dict_get d ''id'' (PStr (''msg_'' @ message_uuid env)),
              prompt_tokens = pt,
              completion_tokens = ct \<rparr>)))))))"

text \<open>A value of neither shape leaves the initial values in place.\<close>

definition extract_response :: "translator_env \<Rightarrow> pyval \<Rightarrow> exn + extracted" where
  "extract_response env r =
     (if py_hasattr r ''choices'' \<and> py_hasattr r ''usage'' then extract_object env r
      else case r of
             PDict d \<Rightarrow> extract_dict env d
           | _ \<Rightarrow> Inr \<lparr> content_text = PStr [], ex_tool_calls = PNone,
                        finish_reason = PStr ''stop'',
                        ex_response_id = PStr (''msg_'' @ message_uuid env),
                        prompt_tokens = PInt 0, completion_tokens = PInt 0 \<rparr>)"

subsection \<open>Tool calls\<close>

text \<open>
  The body of the \<open>try\<close> inside the loop over the tool calls: the block to append, or
  \<open>None\<close> where the source says \<open>continue\<close>. \<open>json.loads\<close> raises \<open>TypeError\<close> on a value
  that is not a string.
\<close>

definition load_arguments :: "pyval \<Rightarrow> exn + pyval" where
  "load_arguments arguments_str =
     (case arguments_str of
        PStr s \<Rightarrow> (case json_loads s of
                     Some v \<Rightarrow> Inr v
                   | None \<Rightarrow> Inr (PDict [(''raw_arguments'', arguments_str)]))
      | _ \<Rightarrow> Inl (Exn TypeError (''the JSON object must be str, bytes or bytearray, not ''
                                   @ type_name arguments_str)))"

definition tool_use_block :: "pyval \<Rightarrow> pyval \<Rightarrow> pyval \<Rightarrow> exn + response_block option" where
  "tool_use_block tool_id name arguments_str =
     (if \<not> truthy name then Inr None
      else
        sbind (load_arguments arguments_str) (\<lambda>arguments_dict.
        sbind (as_str ''id'' tool_id) (\<lambda>i.
        sbind (as_str ''name'' name) (\<lambda>n.
        sbind (as_dict ''input'' arguments_dict) (\<lambda>inp.
          Inr (Some (ResponseToolUse i n inp)))))))"

definition tool_call_body :: "translator_env \<Rightarrow> nat \<Rightarrow> pyval \<Rightarrow> exn + response_block option" where
  "tool_call_body env k tool_call =
     (case tool_call of
        PDict d \<Rightarrow>
          (let tool_id = dict_get d ''id'' (PStr (''tool_'' @ tool_uuid env k));
               function_data = dict_get d ''function'' (PDict []) in
           sbind (py_get function_data ''name'' (PStr [])) (\<lambda>name.
           sbind (py_get function_data ''arguments'' (PStr ''{}'')) (\<lambda>arguments_str.
             tool_use_block tool_id name arguments_str)))
      | _ \<Rightarrow>
          if py_hasattr tool_call ''id'' \<and> py_hasattr tool_call ''function'' then
            sbind (py_getattr tool_call ''id'') (\<lambda>tool_id.
            sbind (py_getattr tool_call ''function'') (\<lambda>f.
            sbind (py_getattr f ''name'') (\<lambda>name.
            sbind (py_getattr f ''arguments'') (\<lambda>arguments_str.
              tool_use_block tool_id name arguments_str))))
          else Inr None)"

text \<open>The loop: an exception in the body is logged and the tool call is skipped.\<close>

fun tool_call_blocks :: "translator_env \<Rightarrow> nat \<Rightarrow> pyval list \<Rightarrow> response_block list" where
  "tool_call_blocks env k [] = []"
| "tool_call_blocks env k (tc # tcs) =
     (case tool_call_body env k tc of
        Inr (Some b) \<Rightarrow> b # tool_call_blocks env (Suc k) tcs
      | _ \<Rightarrow> tool_call_blocks env (Suc k) tcs)"

text \<open>\<open>if not isinstance(tool_calls, list): tool_calls = [tool_calls]\<close>.\<close>

definition tool_call_list :: "pyval \<Rightarrow> pyval list" where
  "tool_call_list tcs = (case tcs of PList xs \<Rightarrow> xs | _ \<Rightarrow> [tcs])"

subsection \<open>The finish reason\<close>

text \<open>
  The mapping at the end of the translator. The second argument tells whether the tool
  calls of the response are true.
\<close>

definition map_finish_reason :: "pyval \<Rightarrow> bool \<Rightarrow> string" where
  "map_finish_reason fr has_tool_calls =
     (if fr = PStr ''length'' then STOP_MAX_TOKENS
      else if fr = PStr ''tool_calls'' then STOP_TOOL_USE
      else if fr = PNone \<and> has_tool_calls then STOP_TOOL_USE
      else STOP_END_TURN)"

subsection \<open>The translator\<close>

text \<open>
  The body of the outer \<open>try\<close>, in three steps: the text block, which is validated as
  it is built; the tool-use blocks; and the response with its usage, validated at the end.
\<close>

definition text_blocks_of :: "extracted \<Rightarrow> exn + response_block list" where
  "text_blocks_of x =
     (if truthy (content_text x)
      then sbind (as_str ''text'' (content_text x)) (\<lambda>t. Inr [ResponseText t])
      else Inr [])"

definition tool_blocks_of :: "translator_env \<Rightarrow> extracted \<Rightarrow> response_block list" where
  "tool_blocks_of env x =
     (if truthy (ex_tool_calls x)
      then tool_call_blocks env 0 (tool_call_list (ex_tool_calls x))
      else [])"

definition build_response ::
  "translator_env \<Rightarrow> messages_request \<Rightarrow> extracted \<Rightarrow> response_block list \<Rightarrow> exn + messages_response" where
  "build_response env original_request x blocks =
     (let content_blocks = (if blocks = [] then [ResponseText []] else blocks) in
      sbind (as_str ''id'' (ex_response_id x)) (\<lambda>rid.
        case (as_int env (prompt_tokens x), as_int env (completion_tokens x)) of
          (Some pt, Some ct) \<Rightarrow>
            Inr \<lparr> response_id = rid,
                  response_model = echoed_model original_request,
                  response_role = ''assistant'',
                  response_content = content_blocks,
                  stop_reason = map_finish_reason (finish_reason x) (truthy (ex_tool_calls x)),
                  stop_sequence = None,
                  response_usage = \<lparr> usage_input_tokens = pt, usage_output_tokens = ct,
                                     cache_creation_input_tokens = 0,
                                     cache_read_input_tokens = 0 \<rparr> \<rparr>
        | _ \<Rightarrow> Inl (validation_error ''usage'')))"

definition convert_body :: "translator_env \<Rightarrow> pyval \<Rightarrow> messages_request \<Rightarrow> exn + messages_response" where
  "convert_body env litellm_response original_request =
     sbind (extract_response env litellm_response) (\<lambda>x.
     sbind (text_blocks_of x) (\<lambda>text_blocks.
       build_response env original_request x (text_blocks @ tool_blocks_of env x)))"

text \<open>The degraded response of the \<open>except Exception\<close> clause.\<close>

definition degraded_response :: "translator_env \<Rightarrow> messages_request \<Rightarrow> messages_response" where
  "degraded_response env original_request =
     \<lparr> response_id = ''msg_error_'' @ error_uuid env,
       response_model = echoed_model original_request,
       response_role = ''assistant'',
       response_content = [ResponseText ''Response conversion error''],
       stop_reason = STOP_ERROR,
       stop_sequence = None,
       response_usage = \<lparr> usage_input_tokens = 0, usage_output_tokens = 0,
                          cache_creation_input_tokens = 0, cache_read_input_tokens = 0 \<rparr> \<rparr>"

definition convert_litellm_to_anthropic :: "translator_env \<Rightarrow> pyval \<Rightarrow> messages_request \<Rightarrow> messages_response" where
  "convert_litellm_to_anthropic env litellm_response original_request =
     (case convert_body env litellm_response original_request of
        Inr response \<Rightarrow> response
      | Inl e \<Rightarrow> degraded_response env original_request)"

subsection \<open>Sample surroundings\<close>

text \<open>
  A request and an environment for the examples: the identifiers are fixed texts, and the
  integer fields accept the values that are integers already.
\<close>

definition sample_request :: messages_request where
  "sample_request = \<lparr> request_model = ''gemini/gemini-1.5-pro-latest'',
                       original_model = Some ''claude-3-opus'' \<rparr>"

definition sample_env :: translator_env where
  "sample_env = \<lparr> message_uuid = ''0001'', tool_uuid = (\<lambda>n. ''0002''), error_uuid = ''0003'',
                   as_int = (\<lambda>v. case v of PInt i \<Rightarrow> Some i | _ \<Rightarrow> None) \<rparr>"

section \<open>The streaming reassembler (\<open>handle_streaming_with_recovery\<close>)\<close>

subsection \<open>\<open>is_malformed_chunk\<close>\<close>

definition malformed_singles :: "string list" where
  "malformed_singles = [''{'', ''}'', ''['', '']'', '','', '':'', [CHR 0x22], [CHR 0x27]]"

definition malformed_patterns :: "string list" where
  "malformed_patterns =
     [[CHR ''{'', CHR 0x22], [CHR 0x22, CHR ''}''], ''[{'', ''}]'', ''{}'', ''[]'',
      ''null'', [CHR 0x22, CHR 0x22], [CHR 0x27, CHR 0x27], '' '', [],
      ''{,'', '',}'', ''[,'', '',]'']"

definition is_malformed_chunk :: "string \<Rightarrow> bool" where
  "is_malformed_chunk chunk_str =
     (if chunk_str = [] then True
      else let chunk_stripped = strip chunk_str in
        if chunk_stripped = [] then True
        else if chunk_stripped \<in> set malformed_singles then True
        else if chunk_stripped \<in> set malformed_patterns then True
        else if startswith chunk_stripped ''{'' \<and> \<not> endswith chunk_stripped ''}''
                \<and> length chunk_stripped < 15 then True
        else if startswith chunk_stripped ''['' \<and> \<not> endswith chunk_stripped '']''
                \<and> length chunk_stripped < 10 then True
        else if count_char CHR ''{'' chunk_stripped \<noteq> count_char CHR ''}'' chunk_stripped
                \<and> length chunk_stripped < 20 then True
        else if count_char CHR ''['' chunk_stripped \<noteq> count_char CHR '']'' chunk_stripped
                \<and> length chunk_stripped < 20 then True
        else False)"

subsection \<open>\<open>try_parse_buffered_chunk\<close>\<close>

text \<open>
  The loop over the characters of the buffer, for the characters from position \<open>i\<close> on,
  with the brace count and the start position so far. The count is an integer: a
  closing brace with no open one takes it below zero. The candidate is
  \<open>buffer[start_pos:i+1]\<close> and the remaining buffer is \<open>buffer[i+1:]\<close>.
\<close>

fun scan_buffer :: "string \<Rightarrow> nat \<Rightarrow> int \<Rightarrow> nat option \<Rightarrow> string \<Rightarrow> pyval option \<times> string" where
  "scan_buffer buffer i brace_count start_pos [] = (None, buffer)"
| "scan_buffer buffer i brace_count start_pos (c # cs) =
     (if c = CHR ''{'' then
        scan_buffer buffer (Suc i) (brace_count + 1)
          (case start_pos of None \<Rightarrow> Some i | Some p \<Rightarrow> Some p) cs
      else if c = CHR ''}'' then
        (case start_pos of
           Some p \<Rightarrow>
             if brace_count - 1 = 0 then
               (case json_loads (take (Suc i - p) (drop p buffer)) of
                  Some parsed \<Rightarrow> (Some parsed, cs)
                | None \<Rightarrow> scan_buffer buffer (Suc i) (brace_count - 1) start_pos cs)
             else scan_buffer buffer (Suc i) (brace_count - 1) start_pos cs
         | None \<Rightarrow> scan_buffer buffer (Suc i) (brace_count - 1) start_pos cs)
      else scan_buffer buffer (Suc i) brace_count start_pos cs)"

definition try_parse_buffered_chunk :: "string \<Rightarrow> pyval option \<times> string" where
  "try_parse_buffered_chunk buffer =
     (if strip buffer = [] then (None, [])
      else scan_buffer buffer 0 0 None buffer)"

subsection \<open>Events\<close>

text \<open>
  The generator yields server-sent events, each the text \<open>event: name\<close>, a line feed,
  \<open>data:\<close> with the JSON text of a dictionary, and two line feeds. An event is kept here
  by its kind and the values that vary; \<open>event_payload\<close> gives its name and its
  dictionary and \<open>render_event\<close> the text. \<open>json.dumps\<close> raises on a value that is not
  serializable, so rendering an event can raise.
\<close>

datatype event =
    MessageStart string string int
  | ContentBlockStartText nat
  | Ping
  | ContentBlockDeltaText nat string
  | ContentBlockStartToolUse nat pyval pyval
  | ContentBlockDeltaJson nat pyval
  | ContentBlockStop nat
  | MessageDelta string pyval pyval
  | MessageStop

fun event_payload :: "event \<Rightarrow> string \<times> pyval" where
  "event_payload (MessageStart message_id model input_tokens_arg) =
     (''message_start'',
      PDict [(''type'', PStr ''message_start''),
             (''message'',
              PDict [(''id'', PStr message_id), (''type'', PStr ''message''),
                     (''role'', PStr ''assistant''), (''model'', PStr model),
                     (''content'', PList []), (''stop_reason'', PNone),
                     (''stop_sequence'', PNone),
                     (''usage'', PDict [(''input_tokens'', PInt input_tokens_arg),
                                        (''output_tokens'', PInt 0)])])])"
| "event_payload (ContentBlockStartText index) =
     (''content_block_start'',
      PDict [(''type'', PStr ''content_block_start''), (''index'', PInt (int index)),
             (''content_block'', PDict [(''type'', PStr ''text''), (''text'', PStr [])])])"
| "event_payload Ping = (''ping'', PDict [(''type'', PStr ''ping'')])"
| "event_payload (ContentBlockDeltaText index t) =
     (''content_block_delta'',
      PDict [(''type'', PStr ''content_block_delta''), (''index'', PInt (int index)),
             (''delta'', PDict [(''type'', PStr ''text_delta''), (''text'', PStr t)])])"
| "event_payload (ContentBlockStartToolUse index tool_call_id name) =
     (''content_block_start'',
      PDict [(''type'', PStr ''content_block_start''), (''index'', PInt (int index)),
             (''content_block'',
              PDict [(''type'', PStr ''tool_use''), (''id'', tool_call_id),
                     (''name'', name), (''input'', PDict [])])])"
| "event_payload (ContentBlockDeltaJson index arguments) =
     (''content_block_delta'',
      PDict [(''type'', PStr ''content_block_delta''), (''index'', PInt (int index)),
             (''delta'', PDict [(''type'', PStr ''input_json_delta''),
                                (''partial_json'', arguments)])])"
| "event_payload (ContentBlockStop index) =
     (''content_block_stop'',
      PDict [(''type'', PStr ''content_block_stop''), (''index'', PInt (int index))])"
| "event_payload (MessageDelta reason tokens_in tokens_out) =
     (''message_delta'',
      PDict [(''type'', PStr ''message_delta''),
             (''delta'', PDict [(''stop_reason'', PStr reason), (''stop_sequence'', PNone)]),
             (''usage'', PDict [(''input_tokens'', tokens_in), (''output_tokens'', tokens_out)])])"
| "event_payload MessageStop = (''message_stop'', PDict [(''type'', PStr ''message_stop'')])"

definition render_event :: "event \<Rightarrow> exn + string" where
  "render_event ev =
     (case json_dumps (snd (event_payload ev)) of
        Inl e \<Rightarrow> Inl e
      | Inr data \<Rightarrow>
          Inr (''event: '' @ fst (event_payload ev) @ [CHR 0x0A] @ ''data: '' @ data
               @ [CHR 0x0A, CHR 0x0A]))"

subsection \<open>The state of one stream\<close>

record tool_entry =
  tool_index :: nat
  tool_name :: pyval
  args_buffer :: pyval

record stream_state =
  all_chunks :: "pyval list"
  accumulated_text :: string
  tool_block_counter :: nat
  current_tool_calls :: "(pyval \<times> tool_entry) list"
  input_tokens :: pyval
  output_tokens :: pyval
  final_stop_reason :: string
  consecutive_errors :: nat
  stream_terminated_early :: bool
  malformed_chunks_count :: nat
  chunk_buffer :: string

text \<open>
  The state as the handler sets it after its first three events. The parameter
  \<open>input_tokens\<close> of the handler is assigned 0 here, with the other counters.
\<close>

definition initial_state :: stream_state where
  "initial_state =
     \<lparr> all_chunks = [], accumulated_text = [], tool_block_counter = 0,
       current_tool_calls = [], input_tokens = PInt 0, output_tokens = PInt 0,
       final_stop_reason = STOP_END_TURN, consecutive_errors = 0,
       stream_terminated_early = False, malformed_chunks_count = 0, chunk_buffer = [] \<rparr>"

definition max_consecutive_errors :: nat where "max_consecutive_errors = 10"
definition max_malformed_chunks :: nat where "max_malformed_chunks = 20"
definition text_block_index :: nat where "text_block_index = 0"

datatype control = Continue | Break

subsection \<open>Reading a structured chunk\<close>

text \<open>
  The text delta, the tool-call deltas and the finish reason of a chunk, from an object
  with a true \<open>choices\<close> attribute or else from a dictionary.
\<close>

definition extract_delta :: "pyval \<Rightarrow> exn + (pyval \<times> pyval \<times> pyval)" where
  "extract_delta chunk =
     (if py_hasattr chunk ''choices'' \<and> truthy (py_getattr_default chunk ''choices'' PNone) then
        sbind (py_index0 (py_getattr_default chunk ''choices'' PNone)) (\<lambda>choice.
          let fr = py_getattr_default choice ''finish_reason'' PNone;
              delta = py_getattr_default choice ''delta'' PNone
          in if py_hasattr choice ''delta'' \<and> truthy delta
             then Inr (py_getattr_default delta ''content'' PNone,
                       py_getattr_default delta ''tool_calls'' PNone, fr)
             else Inr (PNone, PNone, fr))
      else case chunk of
             PDict d \<Rightarrow>
               (let choices = dict_get d ''choices'' (PList []) in
                if truthy choices then
                  sbind (py_index0 choices) (\<lambda>choice.
                  sbind (py_get choice ''delta'' (PDict [])) (\<lambda>delta.
                  sbind (py_get delta ''content'' PNone) (\<lambda>content.
                  sbind (py_get delta ''tool_calls'' PNone) (\<lambda>tcs.
                  sbind (py_get choice ''finish_reason'' PNone) (\<lambda>fr.
                    Inr (content, tcs, fr))))))
                else Inr (PNone, PNone, PNone))
           | _ \<Rightarrow> Inr (PNone, PNone, PNone))"

text \<open>The usage snapshot of a chunk, if it carries one: the two token counts.\<close>

definition extract_usage :: "pyval \<Rightarrow> exn + (pyval \<times> pyval) option" where
  "extract_usage chunk =
     (if py_hasattr chunk ''usage'' \<and> truthy (py_getattr_default chunk ''usage'' PNone) then
        (let u = py_getattr_default chunk ''usage'' PNone in
         Inr (Some (py_getattr_default u ''prompt_tokens'' (PInt 0),
                    py_getattr_default u ''completion_tokens'' (PInt 0))))
      else case chunk of
             PDict d \<Rightarrow>
               if dict_has d ''usage'' then
                 sbind (py_get (dict_get d ''usage'' PNone) ''prompt_tokens'' (PInt 0)) (\<lambda>i.
                 sbind (py_get (dict_get d ''usage'' PNone) ''completion_tokens'' (PInt 0)) (\<lambda>out.
                   Inr (Some (i, out))))
               else Inr None
           | _ \<Rightarrow> Inr None)"

subsection \<open>Tool-call deltas\<close>

text \<open>
  \<open>a += b\<close>: strings and lists are concatenated and integers added (a boolean counts
  as 0 or 1). The sum of two numbers of which one is a float is a float whose text is
  not computed. Every other pair raises \<open>TypeError\<close>.
\<close>

definition int_value :: "pyval \<Rightarrow> int option" where
  "int_value v = (case v of PInt i \<Rightarrow> Some i | PBool b \<Rightarrow> Some (if b then 1 else 0) | _ \<Rightarrow> None)"

definition is_number :: "pyval \<Rightarrow> bool" where
  "is_number v = (case v of PInt i \<Rightarrow> True | PBool b \<Rightarrow> True | PFloat r \<Rightarrow> True | _ \<Rightarrow> False)"

definition py_add :: "pyval \<Rightarrow> pyval \<Rightarrow> exn + pyval" where
  "py_add a b =
     (case (a, b) of
        (PStr s, PStr t) \<Rightarrow> Inr (PStr (s @ t))
      | (PStr s, _) \<Rightarrow>
          Inl (Exn TypeError (''can only concatenate str (not '' @ [CHR 0x22] @ type_name b
                              @ [CHR 0x22] @ '') to str''))
      | (PList xs, PList ys) \<Rightarrow> Inr (PList (xs @ ys))
      | (PList xs, _) \<Rightarrow>
          Inl (Exn TypeError (''can only concatenate list (not '' @ [CHR 0x22] @ type_name b
                              @ [CHR 0x22] @ '') to list''))
      | _ \<Rightarrow>
          (case (int_value a, int_value b) of
             (Some i, Some j) \<Rightarrow> Inr (PInt (i + j))
           | _ \<Rightarrow>
               if is_number a \<and> is_number b then Inr (PFloat [])
               else Inl (Exn TypeError (''unsupported operand type(s) for +=: '' @ [CHR 0x27]
                                        @ type_name a @ [CHR 0x27] @ '' and '' @ [CHR 0x27]
                                        @ type_name b @ [CHR 0x27]))))"

text \<open>
  The guard of the loop over the tool-call deltas: the delta has a true \<open>function\<close>
  attribute with a true \<open>name\<close> attribute.
\<close>

definition tool_named :: "pyval \<Rightarrow> bool" where
  "tool_named tc =
     (py_hasattr tc ''function''
      \<and> truthy (py_getattr_default tc ''function'' PNone)
      \<and> py_hasattr (py_getattr_default tc ''function'' PNone) ''name''
      \<and> truthy (py_getattr_default (py_getattr_default tc ''function'' PNone) ''name'' PNone))"

definition set_args_buffer :: "pyval \<Rightarrow> pyval \<Rightarrow> (pyval \<times> tool_entry) list \<Rightarrow> (pyval \<times> tool_entry) list" where
  "set_args_buffer k v calls =
     map (\<lambda>p. if fst p = k then (fst p, (snd p)\<lparr>args_buffer := v\<rparr>) else p) calls"

text \<open>
  The second half of one round: when the arguments of the delta are true they are added
  to the buffer of the call and sent as an \<open>input_json_delta\<close>.
\<close>

definition tool_arguments :: "stream_state \<Rightarrow> event list \<Rightarrow> pyval \<Rightarrow> pyval \<Rightarrow> stream_state \<times> event list \<times> exn option" where
  "tool_arguments st evs tool_call_id f =
     (case py_getattr f ''arguments'' of
        Inl e \<Rightarrow> (st, evs, Some e)
      | Inr arguments \<Rightarrow>
          if truthy arguments then
            (case map_of (current_tool_calls st) tool_call_id of
               None \<Rightarrow> (st, evs, Some (Exn KeyError (py_repr tool_call_id)))
             | Some entry \<Rightarrow>
                 (case py_add (args_buffer entry) arguments of
                    Inl e \<Rightarrow> (st, evs, Some e)
                  | Inr buf \<Rightarrow>
                      (let st' = st\<lparr>current_tool_calls :=
                                       set_args_buffer tool_call_id buf (current_tool_calls st)\<rparr>;
                           ev = ContentBlockDeltaJson (tool_index entry) arguments
                       in case render_event ev of
                            Inl e \<Rightarrow> (st', evs, Some e)
                          | Inr t \<Rightarrow> (st', evs @ [ev], None))))
          else (st, evs, None))"

text \<open>
  One round of the loop: the state after it, the events it yields and the exception it
  raises, if any. What was done before an exception stays done.
\<close>

definition tool_step :: "stream_state \<Rightarrow> pyval \<Rightarrow> stream_state \<times> event list \<times> exn option" where
  "tool_step st tc =
     (if \<not> tool_named tc then (st, [], None)
      else
        (let f = py_getattr_default tc ''function'' PNone in
         case py_getattr tc ''id'' of
           Inl e \<Rightarrow> (st, [], Some e)
         | Inr tool_call_id \<Rightarrow>
             if \<not> hashable tool_call_id then (st, [], Some (unhashable_error tool_call_id))
             else if map_of (current_tool_calls st) tool_call_id = None then
               (let st1 = st\<lparr>tool_block_counter := tool_block_counter st + 1\<rparr>;
                    index = text_block_index + tool_block_counter st1;
                    name = py_or (py_getattr_default f ''name'' PNone) (PStr [])
                in case py_getattr f ''arguments'' of
                     Inl e \<Rightarrow> (st1, [], Some e)
                   | Inr arguments \<Rightarrow>
                       (let st2 = st1\<lparr>current_tool_calls := current_tool_calls st1 @
                                      [(tool_call_id,
                                        \<lparr> tool_index = index, tool_name = name,
                                          args_buffer = py_or arguments (PStr []) \<rparr>)]\<rparr>;
                            ev = ContentBlockStartToolUse index tool_call_id name
                        in case render_event ev of
                             Inl e \<Rightarrow> (st2, [], Some e)
                           | Inr t \<Rightarrow> tool_arguments st2 [ev] tool_call_id f))
             else tool_arguments st [] tool_call_id f))"

fun tool_loop :: "stream_state \<Rightarrow> pyval list \<Rightarrow> stream_state \<times> event list \<times> exn option" where
  "tool_loop st [] = (st, [], None)"
| "tool_loop st (tc # tcs) =
     (case tool_step st tc of
        (st', evs, Some e) \<Rightarrow> (st', evs, Some e)
      | (st', evs, None) \<Rightarrow>
          (case tool_loop st' tcs of (st'', evs', r) \<Rightarrow> (st'', evs @ evs', r)))"

definition tool_phase :: "stream_state \<Rightarrow> pyval \<Rightarrow> stream_state \<times> event list \<times> exn option" where
  "tool_phase st delta_tool_calls =
     (if truthy delta_tool_calls then
        (case py_iter delta_tool_calls of
           Inl e \<Rightarrow> (st, [], Some e)
         | Inr tcs \<Rightarrow> tool_loop st tcs)
      else (st, [], None))"

subsection \<open>Processing a structured chunk\<close>

text \<open>The mapping of a finish reason that is true.\<close>

definition stream_stop_reason :: "pyval \<Rightarrow> string" where
  "stream_stop_reason chunk_finish_reason =
     (if chunk_finish_reason = PStr ''length'' then STOP_MAX_TOKENS
      else if chunk_finish_reason = PStr ''tool_calls'' then STOP_TOOL_USE
      else if chunk_finish_reason = PStr ''stop'' then STOP_END_TURN
      else STOP_END_TURN)"

definition finish_phase :: "stream_state \<Rightarrow> pyval \<Rightarrow> stream_state \<times> control" where
  "finish_phase st chunk_finish_reason =
     (if truthy chunk_finish_reason
      then (st\<lparr>final_stop_reason := stream_stop_reason chunk_finish_reason\<rparr>, Break)
      else (st, Continue))"

text \<open>The text delta: \<open>accumulated_text += delta_content_text\<close> and the event.\<close>

definition text_phase :: "stream_state \<Rightarrow> pyval \<Rightarrow> stream_state \<times> event list \<times> exn option" where
  "text_phase st delta_content_text =
     (if truthy delta_content_text then
        (case delta_content_text of
           PStr d \<Rightarrow>
             (st\<lparr>accumulated_text := accumulated_text st @ d\<rparr>,
              [ContentBlockDeltaText text_block_index d], None)
         | _ \<Rightarrow>
             (st, [],
              Some (Exn TypeError (''can only concatenate str (not '' @ [CHR 0x22]
                                   @ type_name delta_content_text @ [CHR 0x22] @ '') to str''))))
      else (st, [], None))"

text \<open>
  From the extraction to the finish reason, in the order of the source. The result is
  the state, the events yielded, and either the exception raised or how the loop goes on.
\<close>

definition process_chunk :: "stream_state \<Rightarrow> pyval \<Rightarrow> stream_state \<times> event list \<times> (exn + control)" where
  "process_chunk st chunk =
     (case extract_delta chunk of
        Inl e \<Rightarrow> (st, [], Inl e)
      | Inr (delta_content_text, delta_tool_calls, chunk_finish_reason) \<Rightarrow>
          (case extract_usage chunk of
             Inl e \<Rightarrow> (st, [], Inl e)
           | Inr snapshot \<Rightarrow>
               (let st1 = (case snapshot of
                             None \<Rightarrow> st
                           | Some (i, out) \<Rightarrow> st\<lparr>input_tokens := i, output_tokens := out\<rparr>)
                in case text_phase st1 delta_content_text of
                     (st2, evs, Some e) \<Rightarrow> (st2, evs, Inl e)
                   | (st2, evs, None) \<Rightarrow>
                       (case tool_phase st2 delta_tool_calls of
                          (st3, evs', Some e) \<Rightarrow> (st3, evs @ evs', Inl e)
                        | (st3, evs', None) \<Rightarrow>
                            (case finish_phase st3 chunk_finish_reason of
                               (st4, c) \<Rightarrow> (st4, evs @ evs', Inr c))))))"

subsection \<open>The \<open>except\<close> clauses of the loop\<close>

definition class_name :: "exn_class \<Rightarrow> string" where
  "class_name c =
     (case c of
        JSONDecodeError \<Rightarrow> ''JSONDecodeError'' | ValueError \<Rightarrow> ''ValueError''
      | KeyError \<Rightarrow> ''KeyError'' | AttributeError \<Rightarrow> ''AttributeError''
      | TypeError \<Rightarrow> ''TypeError'' | IndexError \<Rightarrow> ''IndexError''
      | ValidationError \<Rightarrow> ''ValidationError'' | APIConnectionError \<Rightarrow> ''APIConnectionError''
      | RuntimeError \<Rightarrow> ''RuntimeError'' | OtherError n \<Rightarrow> n)"

definition is_rate_limit_error :: "exn \<Rightarrow> bool" where
  "is_rate_limit_error e =
     (is_substr ''RateLimitError'' (exn_msg e)
      \<or> is_substr ''RateLimitError'' (class_name (exn_cls e))
      \<or> is_substr ''rate limit'' (lower (exn_msg e))
      \<or> is_substr ''quota'' (lower (exn_msg e))
      \<or> is_substr ''429'' (exn_msg e)
      \<or> is_substr ''RESOURCE_EXHAUSTED'' (exn_msg e))"

text \<open>
  The text of the warning that the second clause sends; the warning sign at its start
  is outside Latin-1 and left out.
\<close>

definition malformed_warning :: string where
  "malformed_warning =
     [CHR 0x0A] @ '' Gemini streaming encountered repeated malformed chunks. This is a known API issue.''
     @ [CHR 0x0A]"

definition count_error :: "stream_state \<Rightarrow> control \<times> stream_state \<times> event list" where
  "count_error st =
     (let st' = st\<lparr>consecutive_errors := consecutive_errors st + 1\<rparr> in
      if consecutive_errors st' \<ge> max_consecutive_errors
      then (Break, st'\<lparr>stream_terminated_early := True\<rparr>, [])
      else (Continue, st', []))"

text \<open>
  The three clauses, in their order. In the third, a rate-limit error is handed to
  \<open>handle_quota_rate_limit_error\<close> and the result is raised; the \<open>raise\<close> stands inside
  the outer \<open>try\<close> of the handler, whose \<open>except Exception\<close> clause catches it, marks the
  stream as terminated early and goes on to the final events.
\<close>

definition handle_exception :: "stream_state \<Rightarrow> exn \<Rightarrow> control \<times> stream_state \<times> event list" where
  "handle_exception st e =
     (if exn_cls e \<in> {JSONDecodeError, ValueError, ValidationError} then count_error st
      else if exn_cls e \<in> {APIConnectionError, RuntimeError} then
        (let st' = st\<lparr>consecutive_errors := consecutive_errors st + 1\<rparr> in
         if is_substr ''Error parsing chunk'' (exn_msg e)
            \<and> is_substr ''Expecting property name enclosed in double quotes'' (exn_msg e)
         then (if consecutive_errors st' \<ge> max_consecutive_errors
               then (Break, st'\<lparr>stream_terminated_early := True\<rparr>,
                     [ContentBlockDeltaText text_block_index malformed_warning])
               else (Continue, st', []))
         else (Break, st'\<lparr>stream_terminated_early := True\<rparr>, []))
      else if is_rate_limit_error e then (Break, st\<lparr>stream_terminated_early := True\<rparr>, [])
      else count_error st)"

subsection \<open>One round of the loop\<close>

text \<open>
  What \<open>anext\<close> gives: a chunk, an exception, or nothing within 90 seconds. The end of
  the list is the end of the stream.
\<close>

datatype stream_item = Chunk pyval | Raises exn | Timeout

definition structured_chunk :: "stream_state \<Rightarrow> pyval \<Rightarrow> control \<times> stream_state \<times> event list" where
  "structured_chunk st chunk =
     (if (case chunk of PDict d \<Rightarrow> True | _ \<Rightarrow> False) \<or> py_hasattr chunk ''choices'' then
        (case process_chunk st chunk of
           (st', evs, Inr c) \<Rightarrow> (c, st', evs)
         | (st', evs, Inl e) \<Rightarrow>
             (case handle_exception st' e of (c, st'', evs') \<Rightarrow> (c, st'', evs @ evs')))
      else (Continue, st, []))"

definition string_chunk :: "stream_state \<Rightarrow> string \<Rightarrow> control \<times> stream_state \<times> event list" where
  "string_chunk st chunk =
     (if strip chunk = ''[DONE]'' then (Break, st, [])
      else if is_malformed_chunk chunk then
        (let st' = st\<lparr>malformed_chunks_count := malformed_chunks_count st + 1\<rparr> in
         if malformed_chunks_count st' > max_malformed_chunks
         then (Break, st'\<lparr>stream_terminated_early := True\<rparr>, [])
         else (Continue, st', []))
      else
        (case try_parse_buffered_chunk (chunk_buffer st @ chunk) of
           (None, buffer) \<Rightarrow>
             (Continue, st\<lparr>chunk_buffer := (if length buffer > 10000 then [] else buffer)\<rparr>, [])
         | (Some parsed_chunk, buffer) \<Rightarrow>
             structured_chunk (st\<lparr>chunk_buffer := buffer\<rparr>) parsed_chunk))"

definition step :: "stream_state \<Rightarrow> stream_item \<Rightarrow> control \<times> stream_state \<times> event list" where
  "step st item =
     (case item of
        Timeout \<Rightarrow> (Break, st\<lparr>stream_terminated_early := True\<rparr>, [])
      | Raises e \<Rightarrow> handle_exception st e
      | Chunk chunk \<Rightarrow>
          (let st' = st\<lparr>consecutive_errors := 0, all_chunks := all_chunks st @ [chunk]\<rparr> in
           case chunk of
             PStr s \<Rightarrow> string_chunk st' s
           | _ \<Rightarrow> structured_chunk st' chunk))"

fun stream_loop :: "stream_state \<Rightarrow> stream_item list \<Rightarrow> stream_state \<times> event list" where
  "stream_loop st [] = (st, [])"
| "stream_loop st (item # items) =
     (case step st item of
        (Break, st', evs) \<Rightarrow> (st', evs)
      | (Continue, st', evs) \<Rightarrow>
          (case stream_loop st' items of (st'', evs') \<Rightarrow> (st'', evs @ evs')))"

subsection \<open>The final events and the handler\<close>

text \<open>
  \<open>litellm.stream_chunk_builder\<close> is a function of the library and a parameter here. An
  exception in the final block, of the builder or of rendering the \<open>message_delta\<close>, is
  logged and ends the generator; the events before it have been sent.
\<close>

definition final_events :: "(pyval list \<Rightarrow> exn + pyval) \<Rightarrow> stream_state \<Rightarrow> event list" where
  "final_events stream_chunk_builder st =
     (let stops = ContentBlockStop text_block_index
                  # map (\<lambda>p. ContentBlockStop (tool_index (snd p))) (current_tool_calls st);
          reason = (if stream_terminated_early st \<and> final_stop_reason st = STOP_END_TURN
                    then STOP_ERROR else final_stop_reason st)
      in case stream_chunk_builder (all_chunks st) of
           Inl e \<Rightarrow> stops
         | Inr final_response \<Rightarrow>
             (let out = (if truthy final_response \<and> py_hasattr final_response ''usage''
                         then py_getattr_default (py_getattr_default final_response ''usage'' PNone)
                                ''completion_tokens'' (PInt 0)
                         else output_tokens st);
                  ev = MessageDelta reason (input_tokens st) out
              in case render_event ev of
                   Inl e \<Rightarrow> stops
                 | Inr t \<Rightarrow> stops @ [ev, MessageStop]))"

text \<open>
  The events of one stream. The first event reports the \<open>input_tokens\<close> that the caller
  passed in; the loop starts from \<open>initial_state\<close>.
\<close>

definition handle_streaming_with_recovery ::
  "(pyval list \<Rightarrow> exn + pyval) \<Rightarrow> string \<Rightarrow> messages_request \<Rightarrow> int \<Rightarrow> stream_item list \<Rightarrow> event list" where
  "handle_streaming_with_recovery stream_chunk_builder message_id original_request
                                  input_tokens_arg response_generator =
     [MessageStart message_id (echoed_model original_request) input_tokens_arg,
      ContentBlockStartText text_block_index, Ping]
     @ (case stream_loop initial_state response_generator of
          (st, evs) \<Rightarrow> evs @ final_events stream_chunk_builder st)"

subsection \<open>Notions for the statements about the reassembler\<close>


text \<open>
  A chunk that carries the non-empty text delta \<open>t\<close> and no tool calls, read without
  an exception: a dictionary from which the source extracts \<open>t\<close>.
\<close>

definition is_dict :: "pyval \<Rightarrow> bool" where
  "is_dict v = (case v of PDict d \<Rightarrow> True | _ \<Rightarrow> False)"

definition text_chunk :: "pyval \<Rightarrow> string \<Rightarrow> bool" where
  "text_chunk chunk t =
     (is_dict chunk \<and> t \<noteq> []
      \<and> (case extract_delta chunk of
            Inr (content, tcs, fr) \<Rightarrow> content = PStr t \<and> \<not> truthy tcs
          | Inl e \<Rightarrow> False)
      \<and> (case extract_usage chunk of Inr u \<Rightarrow> True | Inl e \<Rightarrow> False))"


text \<open>
  The brace count of the scan, which does not tell a brace inside a string from one
  outside, and the texts on which it finds one object that is the whole text: the text
  starts with an opening brace, the count is positive after every proper prefix and
  zero at the end.
\<close>

definition brace_depth :: "string \<Rightarrow> int" where
  "brace_depth s = int (count_char CHR ''{'' s) - int (count_char CHR ''}'' s)"

definition single_object :: "string \<Rightarrow> bool" where
  "single_object s =
     (s \<noteq> [] \<and> hd s = CHR ''{'' \<and> brace_depth s = 0
      \<and> (\<forall>n \<in> {1..<length s}. 0 < brace_depth (take n s)))"



text \<open>
  The input-token counts that a list of events reports: in its \<open>message_start\<close> events
  and in its \<open>message_delta\<close> events.
\<close>

definition start_input_tokens :: "event list \<Rightarrow> int list" where
  "start_input_tokens evs =
     concat (map (\<lambda>ev. case ev of MessageStart m model i \<Rightarrow> [i] | _ \<Rightarrow> []) evs)"

definition final_input_tokens :: "event list \<Rightarrow> pyval list" where
  "final_input_tokens evs =
     concat (map (\<lambda>ev. case ev of MessageDelta r i out \<Rightarrow> [i] | _ \<Rightarrow> []) evs)"

text \<open>
  A chunk carries a usage snapshot when the source reads one from it: an object with a
  true \<open>usage\<close> attribute, or a dictionary with the key \<open>usage\<close>.
\<close>

definition carries_usage :: "pyval \<Rightarrow> bool" where
  "carries_usage chunk =
     ((py_hasattr chunk ''usage'' \<and> truthy (py_getattr_default chunk ''usage'' PNone))
      \<or> (case chunk of PDict d \<Rightarrow> dict_has d ''usage'' | _ \<Rightarrow> False))"

text \<open>
  The structured chunk that one round of the loop has in hand, if any: the item itself,
  or what the buffer yields once the string fragment is appended to it.
\<close>

definition processed_chunk :: "stream_state \<Rightarrow> stream_item \<Rightarrow> pyval option" where
  "processed_chunk st item =
     (case item of
        Chunk (PStr s) \<Rightarrow>
          if strip s = ''[DONE]'' \<or> is_malformed_chunk s then None
          else fst (try_parse_buffered_chunk (chunk_buffer st @ s))
      | Chunk chunk \<Rightarrow> Some chunk
      | _ \<Rightarrow> None)"

text \<open>No chunk that the loop has in hand, from the state \<open>st\<close> on, carries a usage snapshot.\<close>

fun usage_free :: "stream_state \<Rightarrow> stream_item list \<Rightarrow> bool" where
  "usage_free st [] = True"
| "usage_free st (item # items) =
     ((case processed_chunk st item of None \<Rightarrow> True | Some chunk \<Rightarrow> \<not> carries_usage chunk)
      \<and> (case step st item of
            (Break, st', evs) \<Rightarrow> True
          | (Continue, st', evs) \<Rightarrow> usage_free st' items))"

text \<open>
  The builder of the final response returns, and what the final block reads from its
  result as the count of output tokens, if it reads one, is an integer.
\<close>

definition builder_counts :: "(pyval list \<Rightarrow> exn + pyval) \<Rightarrow> pyval list \<Rightarrow> bool" where
  "builder_counts stream_chunk_builder chunks =
     (case stream_chunk_builder chunks of
        Inl e \<Rightarrow> False
      | Inr final_response \<Rightarrow>
          (if truthy final_response \<and> py_hasattr final_response ''usage''
           then (case py_getattr_default (py_getattr_default final_response ''usage'' PNone)
                        ''completion_tokens'' (PInt 0) of
                   PInt k \<Rightarrow> True | _ \<Rightarrow> False)
           else True))"

text \<open>
  The text of a chunk with the text delta \<open>t\<close>, as the backend serializes it, for
  \<open>t\<close> without characters that JSON escapes.
\<close>

definition delta_prefix :: string where
  "delta_prefix =
     ''{'' @ quoted ''choices'' @ '':[{'' @ quoted ''delta'' @ '':{'' @ quoted ''content''
     @ '':'' @ [dq]"

definition delta_suffix :: string where
  "delta_suffix = dq # ''}}]}''"

definition delta_fragment :: "string \<Rightarrow> string" where
  "delta_fragment t = delta_prefix @ t @ delta_suffix"

text \<open>
  A chunk of the object shape whose delta carries one named tool call and whose choice
  has no finish reason.
\<close>

definition tool_call_chunk :: pyval where
  "tool_call_chunk =
     PObj ''ModelResponseStream''
       [(''choices'',
         PList [PObj ''StreamingChoices''
                  [(''finish_reason'', PNone),
                   (''delta'',
                    PObj ''Delta''
                      [(''content'', PNone),
                       (''tool_calls'',
                        PList [PObj ''ChatCompletionDeltaToolCall''
                                 [(''id'', PStr ''call_1''),
                                  (''function'',
                                   PObj ''Function''
                                     [(''name'', PStr ''get_weather''),
                                      (''arguments'', PStr ''{}'')])]])])]])]"

text \<open>
  The two token counters of a state, and the events that the loop yields: deltas and
  starts of content blocks.
\<close>

definition token_counts :: "stream_state \<Rightarrow> pyval \<times> pyval" where
  "token_counts st = (input_tokens st, output_tokens st)"

definition is_block_event :: "event \<Rightarrow> bool" where
  "is_block_event ev =
     (case ev of
        ContentBlockDeltaText i t \<Rightarrow> True
      | ContentBlockStartToolUse i tool_call_id name \<Rightarrow> True
      | ContentBlockDeltaJson i arguments \<Rightarrow> True
      | _ \<Rightarrow> False)"

text \<open>
  The chunk that \<open>delta_fragment t\<close> is the text of, and the texts for which that is
  shown here: no control character, quote or backslash, and no brace.
\<close>

definition delta_chunk :: "string \<Rightarrow> pyval" where
  "delta_chunk t =
     PDict [(''choices'', PList [PDict [(''delta'', PDict [(''content'', PStr t)])]])]"

definition plain_char :: "char \<Rightarrow> bool" where
  "plain_char c =
     (32 \<le> (of_char c :: nat) \<and> c \<noteq> CHR 0x22 \<and> c \<noteq> CHR 0x5C
      \<and> c \<noteq> CHR ''{'' \<and> c \<noteq> CHR ''}'')"

text \<open>
  The finish reason that the loop reads from a chunk, absent when the extraction raises;
  the streams in which no chunk that the loop has in hand carries a true one; and the
  stop reasons that the \<open>message_delta\<close> events of a list of events report.
\<close>

definition chunk_finish_reason :: "pyval \<Rightarrow> pyval" where
  "chunk_finish_reason chunk =
     (case extract_delta chunk of Inr (content, tcs, fr) \<Rightarrow> fr | Inl e \<Rightarrow> PNone)"

fun reason_free :: "stream_state \<Rightarrow> stream_item list \<Rightarrow> bool" where
  "reason_free st [] = True"
| "reason_free st (item # items) =
     ((case processed_chunk st item of
         None \<Rightarrow> True
       | Some chunk \<Rightarrow> \<not> truthy (chunk_finish_reason chunk))
      \<and> (case step st item of
            (Break, st', evs) \<Rightarrow> True
          | (Continue, st', evs) \<Rightarrow> reason_free st' items))"

definition reported_stop_reasons :: "event list \<Rightarrow> string list" where
  "reported_stop_reasons evs =
     concat (map (\<lambda>ev. case ev of MessageDelta r i out \<Rightarrow> [r] | _ \<Rightarrow> []) evs)"

text \<open>
  Two chunks of the mapping shape with the finish reason \<open>length\<close>: one with the text
  delta \<open>Hi\<close>, one whose text delta is the number 5, on which the text phase raises.
\<close>

definition length_chunk :: "pyval \<Rightarrow> pyval" where
  "length_chunk content =
     PDict [(''choices'',
             PList [PDict [(''delta'', PDict [(''content'', content)]),
                           (''finish_reason'', PStr ''length'')]])]"

text \<open>The texts of the \<open>text_delta\<close> events of a list of events.\<close>

definition text_deltas :: "event list \<Rightarrow> string list" where
  "text_deltas evs =
     concat (map (\<lambda>ev. case ev of ContentBlockDeltaText i t \<Rightarrow> [t] | _ \<Rightarrow> []) evs)"

section \<open>The model resolver\<close>

lemma clean_model_name_gemini: "clean_model_name (''gemini/'' @ c) = c"
  by (simp add: clean_model_name_def startswith_def)

lemma clean_model_name_anthropic: "clean_model_name (''anthropic/'' @ c) = c"
  by (simp add: clean_model_name_def startswith_def)

lemma clean_model_name_openai: "clean_model_name (''openai/'' @ c) = c"
  by (simp add: clean_model_name_def startswith_def)

lemma clean_model_name_cases:
  "startswith m ''gemini/''
   \<or> (\<exists>c. m = ''anthropic/'' @ c \<and> clean_model_name m = c)
   \<or> (\<exists>c. m = ''openai/'' @ c \<and> clean_model_name m = c)
   \<or> (\<not> startswith m ''gemini/'' \<and> \<not> startswith m ''anthropic/''
       \<and> \<not> startswith m ''openai/'' \<and> clean_model_name m = m)"
proof (cases "startswith m ''gemini/''")
  case True
  then show ?thesis by simp
next
  case g: False
  show ?thesis
  proof (cases "startswith m ''anthropic/''")
    case True
    then obtain c where "m = ''anthropic/'' @ c"
      by (auto simp: startswith_def prefix_def)
    then show ?thesis
      using clean_model_name_anthropic by blast
  next
    case a: False
    show ?thesis
    proof (cases "startswith m ''openai/''")
      case True
      then obtain c where "m = ''openai/'' @ c"
        by (auto simp: startswith_def prefix_def)
      then show ?thesis
        using clean_model_name_openai by blast
    next
      case False
      with g a show ?thesis
        by (simp add: clean_model_name_def)
    qed
  qed
qed

text \<open>
  Every known backend model starts with \<open>gemini\<close>: the fixed list does, and a
  configured model joins the set only if it does.
\<close>

lemma base_gemini_models_prefix: "x \<in> set base_gemini_models \<Longrightarrow> prefix ''gemini'' x"
  unfolding base_gemini_models_def by (elim set_ConsD [elim_format] disjE) simp_all

lemma gemini_models_prefix: "x \<in> gemini_models cfg \<Longrightarrow> prefix ''gemini'' x"
  using base_gemini_models_prefix [of x]
  by (auto simp: gemini_models_def add_env_models_def startswith_def split: if_splits)

lemma map_model_alias_free: "alias_free s \<Longrightarrow> map_model_alias cfg s = s"
  by (simp add: alias_free_def map_model_alias_def)

lemma alias_free_anthropic: "alias_free (''anthropic/'' @ c) = alias_free c"
  by (simp add: alias_free_def lower_def)

lemma alias_free_openai: "alias_free (''openai/'' @ c) = alias_free c"
  by (simp add: alias_free_def lower_def)

lemma map_model_alias_fixed:
  assumes "alias_free (big_model cfg)" "alias_free (small_model cfg)"
    and "map_model_alias cfg c = c"
  shows "alias_free c"
  using assms by (auto simp: map_model_alias_def alias_free_def Let_def split: if_splits)

lemma map_model_alias_range:
  "map_model_alias cfg c = small_model cfg \<or> map_model_alias cfg c = big_model cfg
   \<or> map_model_alias cfg c = c"
  by (simp add: map_model_alias_def Let_def)

text \<open>
  Claim C6 (amended). The clean name is the input without one leading \<open>gemini/\<close>,
  \<open>anthropic/\<close> or \<open>openai/\<close>. A clean name that contains \<open>haiku\<close> (in any letter
  case) resolves to the configured small model; one that does not, and contains
  \<open>sonnet\<close> or \<open>opus\<close>, resolves to the configured big model; any other clean name
  resolves to itself. When the resolved name differs from the clean name, or the clean
  name is a known backend model, the result is \<open>gemini/\<close> followed by the resolved name,
  marked as mapped. Otherwise the result is not marked as mapped: it is the input with
  \<open>gemini/\<close> prepended when the input does not start with \<open>gemini/\<close>, and the input
  itself when it does.
\<close>

theorem validate_and_map_model_spec:
  "(clean_model_name (''gemini/'' @ c) = c
    \<and> clean_model_name (''anthropic/'' @ c) = c
    \<and> clean_model_name (''openai/'' @ c) = c)
   \<and> (\<not> startswith m ''gemini/'' \<and> \<not> startswith m ''anthropic/''
        \<and> \<not> startswith m ''openai/'' \<longrightarrow> clean_model_name m = m)
   \<and> (is_substr ''haiku'' (lower (clean_model_name m))
        \<longrightarrow> map_model_alias cfg (clean_model_name m) = small_model cfg)
   \<and> (\<not> is_substr ''haiku'' (lower (clean_model_name m))
        \<and> (is_substr ''sonnet'' (lower (clean_model_name m))
             \<or> is_substr ''opus'' (lower (clean_model_name m)))
        \<longrightarrow> map_model_alias cfg (clean_model_name m) = big_model cfg)
   \<and> (alias_free (clean_model_name m)
        \<longrightarrow> map_model_alias cfg (clean_model_name m) = clean_model_name m)
   \<and> (map_model_alias cfg (clean_model_name m) \<noteq> clean_model_name m
        \<or> clean_model_name m \<in> gemini_models cfg
        \<longrightarrow> validate_and_map_model cfg m
            = (''gemini/'' @ map_model_alias cfg (clean_model_name m), True))
   \<and> (map_model_alias cfg (clean_model_name m) = clean_model_name m
        \<and> clean_model_name m \<notin> gemini_models cfg \<and> \<not> startswith m ''gemini/''
        \<longrightarrow> validate_and_map_model cfg m = (''gemini/'' @ m, False))
   \<and> (map_model_alias cfg (clean_model_name m) = clean_model_name m
        \<and> clean_model_name m \<notin> gemini_models cfg \<and> startswith m ''gemini/''
        \<longrightarrow> validate_and_map_model cfg m = (m, False))"
proof -
  have strip3: "clean_model_name (''gemini/'' @ c) = c
    \<and> clean_model_name (''anthropic/'' @ c) = c
    \<and> clean_model_name (''openai/'' @ c) = c"
    using clean_model_name_gemini clean_model_name_anthropic clean_model_name_openai
    by blast
  have keep: "\<not> startswith m ''gemini/'' \<and> \<not> startswith m ''anthropic/''
        \<and> \<not> startswith m ''openai/'' \<longrightarrow> clean_model_name m = m"
    by (simp add: clean_model_name_def)
  have al: "(is_substr ''haiku'' (lower x) \<longrightarrow> map_model_alias cfg x = small_model cfg)
    \<and> (\<not> is_substr ''haiku'' (lower x)
        \<and> (is_substr ''sonnet'' (lower x) \<or> is_substr ''opus'' (lower x))
        \<longrightarrow> map_model_alias cfg x = big_model cfg)
    \<and> (alias_free x \<longrightarrow> map_model_alias cfg x = x)" for x
    by (simp add: map_model_alias_def alias_free_def)
  have res: "(map_model_alias cfg (clean_model_name m) \<noteq> clean_model_name m
        \<or> clean_model_name m \<in> gemini_models cfg
        \<longrightarrow> validate_and_map_model cfg m
            = (''gemini/'' @ map_model_alias cfg (clean_model_name m), True))
   \<and> (map_model_alias cfg (clean_model_name m) = clean_model_name m
        \<and> clean_model_name m \<notin> gemini_models cfg \<and> \<not> startswith m ''gemini/''
        \<longrightarrow> validate_and_map_model cfg m = (''gemini/'' @ m, False))
   \<and> (map_model_alias cfg (clean_model_name m) = clean_model_name m
        \<and> clean_model_name m \<notin> gemini_models cfg \<and> startswith m ''gemini/''
        \<longrightarrow> validate_and_map_model cfg m = (m, False))"
    by (simp add: validate_and_map_model_def Let_def)
  from strip3 keep al [of "clean_model_name m"] res show ?thesis
    by blast
qed

theorem validate_and_map_model_spec_witness:
  "validate_and_map_model default_config ''claude-3-5-sonnet-20241022''
     = (''gemini/gemini-2.0-flash-exp'', True)
   \<and> validate_and_map_model default_config ''openai/gpt-4o'' = (''gemini/openai/gpt-4o'', False)"
proof -
  have models: "gemini_models default_config = set base_gemini_models"
    by (simp add: gemini_models_def add_env_models_def default_config_def
                  base_gemini_models_def startswith_def)
  have c1: "clean_model_name ''claude-3-5-sonnet-20241022'' = ''claude-3-5-sonnet-20241022''"
    and c4: "clean_model_name ''openai/gpt-4o'' = ''gpt-4o''"
    by (simp_all add: clean_model_name_def startswith_def)
  have a1: "map_model_alias default_config ''claude-3-5-sonnet-20241022'' = ''gemini-2.0-flash-exp''"
    and a4: "map_model_alias default_config ''gpt-4o'' = ''gpt-4o''"
    by (simp_all add: map_model_alias_def lower_def default_config_def)
  have n4: "''gpt-4o'' \<notin> gemini_models default_config"
    by (simp add: models base_gemini_models_def)
  have s4: "\<not> startswith ''openai/gpt-4o'' ''gemini/''"
    by (simp add: startswith_def)
  have "map_model_alias default_config (clean_model_name ''claude-3-5-sonnet-20241022'')
          \<noteq> clean_model_name ''claude-3-5-sonnet-20241022''"
    unfolding c1 a1 by simp
  with validate_and_map_model_spec [of "[]" "''claude-3-5-sonnet-20241022''" default_config]
  have "validate_and_map_model default_config ''claude-3-5-sonnet-20241022''
     = (''gemini/'' @ map_model_alias default_config
           (clean_model_name ''claude-3-5-sonnet-20241022''), True)"
    by blast
  then have r1: "validate_and_map_model default_config ''claude-3-5-sonnet-20241022''
     = (''gemini/gemini-2.0-flash-exp'', True)"
    unfolding c1 a1 by simp
  have "map_model_alias default_config (clean_model_name ''openai/gpt-4o'')
          = clean_model_name ''openai/gpt-4o''
        \<and> clean_model_name ''openai/gpt-4o'' \<notin> gemini_models default_config
        \<and> \<not> startswith ''openai/gpt-4o'' ''gemini/''"
    unfolding c4 a4 using n4 s4 by simp
  with validate_and_map_model_spec [of "[]" "''openai/gpt-4o''" default_config]
  have "validate_and_map_model default_config ''openai/gpt-4o'' = (''gemini/'' @ ''openai/gpt-4o'', False)"
    by blast
  with r1 show ?thesis by simp
qed

text \<open>
  The claim as written gives \<open>sonnet\<close> and \<open>opus\<close> the big model without regard to
  \<open>haiku\<close>. The source tests \<open>haiku\<close> first: a name that contains both resolves to the
  small model.
\<close>

theorem alias_precedence_counterexample:
  "is_substr ''opus'' (lower (clean_model_name ''claude-haiku-opus''))
   \<and> map_model_alias default_config (clean_model_name ''claude-haiku-opus'')
       \<noteq> big_model default_config"
  by (simp add: clean_model_name_def startswith_def map_model_alias_def lower_def
                default_config_def)

lemma validate_gemini_alias_free:
  assumes "alias_free x"
  shows "fst (validate_and_map_model cfg (''gemini/'' @ x)) = ''gemini/'' @ x"
proof -
  have "clean_model_name (''gemini/'' @ x) = x"
    by (rule clean_model_name_gemini)
  moreover have "map_model_alias cfg x = x"
    using assms by (rule map_model_alias_free)
  moreover have "startswith (''gemini/'' @ x) ''gemini/''"
    by (simp add: startswith_def)
  ultimately show ?thesis
    by (simp add: validate_and_map_model_def del: append.simps)
qed

text \<open>
  Claim C7 (amended). When neither configured model name contains an alias word
  (\<open>haiku\<close>, \<open>sonnet\<close>, \<open>opus\<close>, in any letter case), as is true of the defaults,
  resolving the name that the resolver returned gives that name again.
\<close>

theorem validate_and_map_model_idempotent:
  assumes big: "alias_free (big_model cfg)" and small: "alias_free (small_model cfg)"
  shows "fst (validate_and_map_model cfg (fst (validate_and_map_model cfg m)))
         = fst (validate_and_map_model cfg m)"
proof (cases "map_model_alias cfg (clean_model_name m) = clean_model_name m")
  case False
  then have r: "validate_and_map_model cfg m
                = (''gemini/'' @ map_model_alias cfg (clean_model_name m), True)"
    by (simp add: validate_and_map_model_def)
  have "alias_free (map_model_alias cfg (clean_model_name m))"
    using map_model_alias_range [of cfg "clean_model_name m"] False big small by auto
  then show ?thesis
    unfolding r fst_conv by (rule validate_gemini_alias_free)
next
  case fixed: True
  with big small have free: "alias_free (clean_model_name m)"
    by (rule map_model_alias_fixed)
  show ?thesis
  proof (cases "clean_model_name m \<in> gemini_models cfg")
    case True
    with fixed have r: "validate_and_map_model cfg m = (''gemini/'' @ clean_model_name m, True)"
      by (simp add: validate_and_map_model_def)
    show ?thesis
      unfolding r fst_conv using free by (rule validate_gemini_alias_free)
  next
    case unknown: False
    show ?thesis
    proof (cases "startswith m ''gemini/''")
      case True
      with fixed unknown have "validate_and_map_model cfg m = (m, False)"
        by (simp add: validate_and_map_model_def)
      then show ?thesis by simp
    next
      case False
      with fixed unknown have r: "validate_and_map_model cfg m = (''gemini/'' @ m, False)"
        by (simp add: validate_and_map_model_def)
      have "alias_free m"
      proof -
        from clean_model_name_cases [of m] False
        consider (a) c where "m = ''anthropic/'' @ c" "clean_model_name m = c"
          | (b) c where "m = ''openai/'' @ c" "clean_model_name m = c"
          | (c) "clean_model_name m = m"
          by blast
        then show ?thesis
        proof cases
          case a
          with free show ?thesis by (simp only: alias_free_anthropic)
        next
          case b
          with free show ?thesis by (simp only: alias_free_openai)
        next
          case c
          with free show ?thesis by simp
        qed
      qed
      then show ?thesis
        unfolding r fst_conv by (rule validate_gemini_alias_free)
    qed
  qed
qed

theorem validate_and_map_model_idempotent_witness:
  "alias_free (big_model default_config) \<and> alias_free (small_model default_config)
   \<and> fst (validate_and_map_model default_config ''claude-3-opus'') = ''gemini/gemini-2.0-flash-exp''
   \<and> fst (validate_and_map_model default_config
            (fst (validate_and_map_model default_config ''claude-3-opus'')))
       = fst (validate_and_map_model default_config ''claude-3-opus'')"
proof -
  have big: "alias_free (big_model default_config)"
    and small: "alias_free (small_model default_config)"
    by (simp_all add: alias_free_def default_config_def lower_def)
  have "fst (validate_and_map_model default_config ''claude-3-opus'') = ''gemini/gemini-2.0-flash-exp''"
    by (simp add: validate_and_map_model_def clean_model_name_def startswith_def
                  map_model_alias_def lower_def default_config_def)
  with big small validate_and_map_model_idempotent [OF big small, of "''claude-3-opus''"]
  show ?thesis by blast
qed

text \<open>
  Without the condition on the configuration the resolver is not idempotent: with a big
  model whose own name contains \<open>haiku\<close>, \<open>claude-3-opus\<close> first resolves to the big model
  and the big model's name then resolves to the small model.
\<close>

theorem idempotent_counterexample:
  "fst (validate_and_map_model (default_config\<lparr>big_model := ''my-haiku-tuned''\<rparr>) ''claude-3-opus'')
     = ''gemini/my-haiku-tuned''
   \<and> fst (validate_and_map_model (default_config\<lparr>big_model := ''my-haiku-tuned''\<rparr>)
           ''gemini/my-haiku-tuned'')
     = ''gemini/gemini-1.5-flash-latest''"
  by (simp add: validate_and_map_model_def clean_model_name_def startswith_def
                map_model_alias_def lower_def default_config_def)

section \<open>The schema sanitizer\<close>

lemma sequence_map_Inr: "sequence (map Inr ys) = Inr ys"
  by (induction ys) simp_all

lemma sequence_Inr_iff: "sequence rs = Inr ys \<longleftrightarrow> rs = map Inr ys"
proof
  show "sequence rs = Inr ys \<Longrightarrow> rs = map Inr ys"
  proof (induction rs arbitrary: ys)
    case Nil
    then show ?case by simp
  next
    case (Cons r rs)
    then show ?case
      by (cases r) (auto split: sum.splits)
  qed
qed (simp add: sequence_map_Inr)

lemma dict_has_iff: "dict_has d k \<longleftrightarrow> k \<in> fst ` set d"
  by (induction d) auto

lemma dict_has_map_of: "dict_has d k \<longleftrightarrow> map_of d k \<noteq> None"
  by (induction d) auto

lemma map_of_dict_pop: "map_of (dict_pop k d) k' = (if k' = k then None else map_of d k')"
  by (induction d) (auto simp: dict_pop_def)

lemma dict_get_Some: "map_of d k = Some v \<Longrightarrow> dict_get d k dflt = v"
  by (simp add: dict_get_def)

text \<open>
  What the source keeps of a dictionary, when the membership test on the format does
  not raise, is what the specification keeps.
\<close>

lemma clean_keeps:
  assumes "(if dict_get s2 ''type'' PNone = PStr ''string'' \<and> dict_has s2 ''format''
            then (if \<not> hashable (dict_get s2 ''format'' PNone)
                  then Inl (unhashable_error (dict_get s2 ''format'' PNone))
                  else if dict_get s2 ''format'' PNone \<notin> allowed_formats
                  then Inr (dict_pop ''format'' s2)
                  else Inr s2)
            else Inr s2) = Inr s3"
    and "s2 = dict_pop ''default'' (dict_pop ''additionalProperties'' d)"
  shows "s3 = filter (\<lambda>kv. spec_keeps d (fst kv)) d"
proof -
  have ty: "map_of s2 ''type'' = map_of d ''type''"
    and fm: "map_of s2 ''format'' = map_of d ''format''"
    using assms(2) by (simp_all add: map_of_dict_pop)
  have s2: "s2 = filter (\<lambda>kv. fst kv \<noteq> ''additionalProperties'' \<and> fst kv \<noteq> ''default'') d"
    using assms(2) by (auto simp: dict_pop_def intro: filter_cong)
  have tyeq: "dict_get s2 ''type'' PNone = PStr ''string'' \<longleftrightarrow> map_of d ''type'' = Some (PStr ''string'')"
    by (auto simp: dict_get_def ty split: option.splits)
  show ?thesis
  proof (cases "map_of d ''type'' = Some (PStr ''string'') \<and> dict_has s2 ''format''")
    case True
    then obtain f where f: "map_of d ''format'' = Some f"
      by (auto simp: dict_has_map_of fm)
    then have g: "dict_get s2 ''format'' PNone = f"
      by (simp add: dict_get_def fm)
    show ?thesis
    proof (cases "f \<in> allowed_formats")
      case True
      with assms(1) \<open>map_of d ''type'' = Some (PStr ''string'') \<and> dict_has s2 ''format''\<close>
      have "s3 = s2"
        by (auto simp: tyeq g split: if_splits)
      moreover have "spec_keeps d k \<longleftrightarrow> k \<noteq> ''additionalProperties'' \<and> k \<noteq> ''default''" for k
        using True f by (auto simp: spec_keeps_def)
      ultimately show ?thesis
        by (simp add: s2)
    next
      case False
      with assms(1) \<open>map_of d ''type'' = Some (PStr ''string'') \<and> dict_has s2 ''format''\<close>
      have "s3 = dict_pop ''format'' s2"
        by (auto simp: tyeq g split: if_splits)
      moreover have "spec_keeps d k \<longleftrightarrow> k \<noteq> ''additionalProperties'' \<and> k \<noteq> ''default'' \<and> k \<noteq> ''format''" for k
        using False f \<open>map_of d ''type'' = Some (PStr ''string'') \<and> dict_has s2 ''format''\<close>
        by (auto simp: spec_keeps_def)
      ultimately show ?thesis
        by (auto simp: s2 dict_pop_def intro: filter_cong)
    qed
  next
    case False
    with assms(1) have "s3 = s2"
      by (auto simp: tyeq split: if_splits)
    moreover have "spec_keeps d (fst kv) \<longleftrightarrow> fst kv \<noteq> ''additionalProperties'' \<and> fst kv \<noteq> ''default''"
      if "kv \<in> set d" for kv
    proof (cases "fst kv = ''format''")
      case True
      with that have "map_of d ''format'' \<noteq> None"
        by (metis dict_has_iff dict_has_map_of imageI)
      then have "dict_has s2 ''format''"
        by (simp add: dict_has_map_of fm)
      with False have "map_of d ''type'' \<noteq> Some (PStr ''string'')" by simp
      then show ?thesis by (simp add: spec_keeps_def)
    next
      case False
      then show ?thesis by (simp add: spec_keeps_def)
    qed
    ultimately show ?thesis
      by (auto simp: s2 intro: filter_cong)
  qed
qed

text \<open>Whenever the source returns, it returns what the specification describes.\<close>

lemma clean_gemini_schema_refines:
  "clean_gemini_schema v = Inr v' \<Longrightarrow> v' = spec_sanitize v"
proof (induction v arbitrary: v' rule: clean_gemini_schema.induct)
  case (1 schema)
  define s2 where "s2 = dict_pop ''default'' (dict_pop ''additionalProperties'' schema)"
  define test where "test = (if dict_get s2 ''type'' PNone = PStr ''string'' \<and> dict_has s2 ''format''
            then (if \<not> hashable (dict_get s2 ''format'' PNone)
                  then Inl (unhashable_error (dict_get s2 ''format'' PNone))
                  else if dict_get s2 ''format'' PNone \<notin> allowed_formats
                  then Inr (dict_pop ''format'' s2)
                  else Inr s2)
            else Inr s2)"
  from "1.prems" have unfolded: "(case test of
        Inl e \<Rightarrow> Inl e
      | Inr s3 \<Rightarrow>
          (case sequence (map (\<lambda>kv. case clean_gemini_schema (snd kv) of
                                       Inl e \<Rightarrow> Inl e
                                     | Inr v \<Rightarrow> Inr (fst kv, v)) s3) of
             Inl e \<Rightarrow> Inl e
           | Inr s4 \<Rightarrow> Inr (PDict s4))) = Inr v'"
    unfolding test_def s2_def by (simp only: clean_gemini_schema.simps Let_def)
  then obtain s3 where s3: "test = Inr s3"
    by (cases test) auto
  with unfolded obtain s4 where
    s4: "sequence (map (\<lambda>kv. case clean_gemini_schema (snd kv) of
                                       Inl e \<Rightarrow> Inl e
                                     | Inr v \<Rightarrow> Inr (fst kv, v)) s3) = Inr s4"
    and v': "v' = PDict s4"
    by (auto split: sum.splits)
  have keep: "s3 = filter (\<lambda>kv. spec_keeps schema (fst kv)) schema"
    using s3 unfolding test_def by (rule clean_keeps) (simp add: s2_def)
  from s4 have m: "map (\<lambda>kv. case clean_gemini_schema (snd kv) of
                                       Inl e \<Rightarrow> Inl e
                                     | Inr v \<Rightarrow> Inr (fst kv, v)) s3 = map Inr s4"
    by (simp add: sequence_Inr_iff)
  have "s4 = map (\<lambda>kv. (fst kv, spec_sanitize (snd kv))) s3"
  proof (rule nth_equalityI)
    from arg_cong [OF m, of length] have l34: "length s3 = length s4"
      by simp
    then show "length s4 = length (map (\<lambda>kv. (fst kv, spec_sanitize (snd kv))) s3)"
      by simp
    fix i assume i: "i < length s4"
    with l34 have i3: "i < length s3" by simp
    from arg_cong [OF m, of "\<lambda>l. l ! i"] i i3
    have e: "(case clean_gemini_schema (snd (s3 ! i)) of
                       Inl e \<Rightarrow> Inl e | Inr v \<Rightarrow> Inr (fst (s3 ! i), v)) = Inr (s4 ! i)"
      by simp
    then obtain w where w: "clean_gemini_schema (snd (s3 ! i)) = Inr w"
      and si: "s4 ! i = (fst (s3 ! i), w)"
      by (auto split: sum.splits)
    have mem: "s3 ! i \<in> set s3"
      using i3 by simp
    have "w = spec_sanitize (snd (s3 ! i))"
      by (rule "1.IH" [OF refl refl s3 [unfolded test_def s2_def] mem w])
    with si i3 show "s4 ! i = map (\<lambda>kv. (fst kv, spec_sanitize (snd kv))) s3 ! i"
      by simp
  qed
  with keep v' show ?case by simp
next
  case (2 items)
  then obtain cleaned where c: "sequence (map clean_gemini_schema items) = Inr cleaned"
    and v': "v' = PList cleaned"
    by (auto split: sum.splits)
  from c have m: "map clean_gemini_schema items = map Inr cleaned"
    by (simp add: sequence_Inr_iff)
  have "cleaned = map spec_sanitize items"
  proof (rule nth_equalityI)
    from arg_cong [OF m, of length] have len: "length items = length cleaned"
      by simp
    then show "length cleaned = length (map spec_sanitize items)"
      by simp
    fix i assume ic: "i < length cleaned"
    with len have i: "i < length items" by simp
    from arg_cong [OF m, of "\<lambda>l. l ! i"] i ic
    have "clean_gemini_schema (items ! i) = Inr (cleaned ! i)"
      by simp
    moreover have "items ! i \<in> set items"
      using i by simp
    ultimately have "cleaned ! i = spec_sanitize (items ! i)"
      by (rule "2.IH" [rotated])
    with i show "cleaned ! i = map spec_sanitize items ! i"
      by simp
  qed
  with v' show ?case by simp
qed simp_all

lemma sequence_all_Inr:
  assumes "\<And>x. x \<in> set xs \<Longrightarrow> \<exists>y. f x = Inr y"
  shows "\<exists>ys. sequence (map f xs) = Inr ys"
  using assms
proof (induction xs)
  case Nil
  then show ?case by simp
next
  case (Cons x xs)
  then obtain y ys where "f x = Inr y" "sequence (map f xs) = Inr ys"
    by (meson list.set_intros)
  then show ?case by simp
qed

text \<open>The source returns on every value whose string formats are hashable.\<close>

lemma clean_gemini_schema_returns:
  "formats_hashable v \<Longrightarrow> \<exists>v'. clean_gemini_schema v = Inr v'"
proof (induction v rule: clean_gemini_schema.induct)
  case (1 schema)
  define s2 where "s2 = dict_pop ''default'' (dict_pop ''additionalProperties'' schema)"
  define test where "test = (if dict_get s2 ''type'' PNone = PStr ''string'' \<and> dict_has s2 ''format''
            then (if \<not> hashable (dict_get s2 ''format'' PNone)
                  then Inl (unhashable_error (dict_get s2 ''format'' PNone))
                  else if dict_get s2 ''format'' PNone \<notin> allowed_formats
                  then Inr (dict_pop ''format'' s2)
                  else Inr s2)
            else Inr s2)"
  have unfolded: "clean_gemini_schema (PDict schema) = (case test of
        Inl e \<Rightarrow> Inl e
      | Inr s3 \<Rightarrow>
          (case sequence (map (\<lambda>kv. case clean_gemini_schema (snd kv) of
                                       Inl e \<Rightarrow> Inl e
                                     | Inr v \<Rightarrow> Inr (fst kv, v)) s3) of
             Inl e \<Rightarrow> Inl e
           | Inr s4 \<Rightarrow> Inr (PDict s4)))"
    unfolding test_def s2_def by (simp only: clean_gemini_schema.simps Let_def)
  have ty: "map_of s2 ''type'' = map_of schema ''type''"
    and fm: "map_of s2 ''format'' = map_of schema ''format''"
    by (simp_all add: s2_def map_of_dict_pop)
  have "\<exists>s3. test = Inr s3"
  proof (cases "dict_get s2 ''type'' PNone = PStr ''string'' \<and> dict_has s2 ''format''")
    case True
    then obtain f where f: "map_of schema ''format'' = Some f"
      by (auto simp: dict_has_map_of fm)
    from True have "map_of schema ''type'' = Some (PStr ''string'')"
      by (auto simp: dict_get_def ty split: option.splits)
    with "1.prems" f have "hashable f" by simp
    moreover have "dict_get s2 ''format'' PNone = f"
      using f by (simp add: dict_get_def fm)
    ultimately show ?thesis
      using True by (simp add: test_def)
  next
    case False
    then show ?thesis by (auto simp: test_def)
  qed
  then obtain s3 where s3: "test = Inr s3" ..
  then have sub: "set s3 \<subseteq> set schema"
    by (auto simp: test_def s2_def dict_pop_def split: if_splits)
  have "\<exists>s4. sequence (map (\<lambda>kv. case clean_gemini_schema (snd kv) of
                                       Inl e \<Rightarrow> Inl e
                                     | Inr v \<Rightarrow> Inr (fst kv, v)) s3) = Inr s4"
  proof (rule sequence_all_Inr)
    fix kv assume kv: "kv \<in> set s3"
    with sub "1.prems" have "formats_hashable (snd kv)" by auto
    with "1.IH" [OF refl refl s3 [unfolded test_def s2_def] kv]
    obtain w where "clean_gemini_schema (snd kv) = Inr w" by blast
    then show "\<exists>y. (case clean_gemini_schema (snd kv) of
                       Inl e \<Rightarrow> Inl e | Inr v \<Rightarrow> Inr (fst kv, v)) = Inr y"
      by simp
  qed
  then obtain s4 where "sequence (map (\<lambda>kv. case clean_gemini_schema (snd kv) of
                                       Inl e \<Rightarrow> Inl e
                                     | Inr v \<Rightarrow> Inr (fst kv, v)) s3) = Inr s4" ..
  with s3 show ?case
    unfolding unfolded by simp
next
  case (2 items)
  have "\<exists>cleaned. sequence (map clean_gemini_schema items) = Inr cleaned"
  proof (rule sequence_all_Inr)
    fix x assume "x \<in> set items"
    with "2.IH" "2.prems" show "\<exists>y. clean_gemini_schema x = Inr y" by simp
  qed
  then show ?case by auto
qed simp_all

lemma clean_gemini_schema_correct:
  "formats_hashable v \<Longrightarrow> clean_gemini_schema v = Inr (spec_sanitize v)"
  using clean_gemini_schema_returns clean_gemini_schema_refines by blast

text \<open>What the specification's sanitizer achieves, at every nesting depth.\<close>

lemma spec_sanitize_free_of_default: "free_of_key ''default'' (spec_sanitize v)"
proof (induction v rule: spec_sanitize.induct)
  case (1 d)
  have "\<not> dict_has (map (\<lambda>kv. (fst kv, spec_sanitize (snd kv)))
                       (filter (\<lambda>kv. spec_keeps d (fst kv)) d)) ''default''"
    by (auto simp: dict_has_iff spec_keeps_def)
  with 1 show ?case by auto
qed simp_all

lemma spec_sanitize_free_of_additional: "free_of_key ''additionalProperties'' (spec_sanitize v)"
proof (induction v rule: spec_sanitize.induct)
  case (1 d)
  have "\<not> dict_has (map (\<lambda>kv. (fst kv, spec_sanitize (snd kv)))
                       (filter (\<lambda>kv. spec_keeps d (fst kv)) d)) ''additionalProperties''"
    by (auto simp: dict_has_iff spec_keeps_def)
  with 1 show ?case by auto
qed simp_all

text \<open>
  Claim C8. The claim holds of every schema value on which the source returns, which
  are those whose string-typed mappings carry hashable formats
  (\<open>clean_gemini_schema_correct\<close>, with \<open>spec_sanitize_free_of_default\<close> and
  \<open>spec_sanitize_free_of_additional\<close>); the example of the claim is one of them. On a
  mapping of type \<open>string\<close> whose format is a list, where the claim has the format
  removed, the membership test raises \<open>TypeError\<close> and nothing is returned.
\<close>

theorem clean_gemini_schema_unhashable_format:
  "clean_gemini_schema (PDict [(''type'', PStr ''string''), (''format'', PList [PStr ''uri''])])
     = Inl (Exn TypeError (''unhashable type: '' @ [sq] @ ''list'' @ [sq]))
   \<and> spec_sanitize (PDict [(''type'', PStr ''string''), (''format'', PList [PStr ''uri''])])
     = PDict [(''type'', PStr ''string'')]
   \<and> clean_gemini_schema (PDict [(''type'', PStr ''string''), (''format'', PStr ''uri''),
                                  (''default'', PStr ''x'')])
     = Inr (PDict [(''type'', PStr ''string'')])"
  by (simp add: dict_pop_def dict_get_def allowed_formats_def unhashable_error_def
                spec_keeps_def)

section \<open>The error classifier\<close>

lemma sbind_Inr: "sbind m f = Inr y \<Longrightarrow> \<exists>x. m = Inr x \<and> f x = Inr y"
  by (cases m) auto

text \<open>
  When the handler returns, its answer follows the classification of the claim: the
  lower-cased metric decides where it names an exhaustion metric or a rate-limit metric,
  and the raw text decides otherwise.
\<close>

lemma handler_classification:
  assumes "handle_quota_rate_limit_error error_str = Inr h"
  shows "\<exists>quota_details retry_delay metric.
           parse_gemini_error_details error_str = Inr quota_details
         \<and> extract_retry_delay error_str = Inr retry_delay
         \<and> dict_get quota_details ''quota_metric'' (PStr []) = PStr metric
         \<and> ((\<exists>i \<in> set exhaustion_indicators. is_substr i (lower metric))
              \<longrightarrow> status_code h = 400
                \<and> detail h = dict_get quota_details ''message''
                                 (PStr ''Quota exhausted. Please check your quota limits.''))
         \<and> (\<not> (\<exists>i \<in> set exhaustion_indicators. is_substr i (lower metric))
              \<and> (\<exists>i \<in> set rate_limit_indicators. is_substr i (lower metric))
              \<longrightarrow> status_code h = 500
                \<and> (\<exists>before after. detail h
                       = PStr (before @ string_of_nat retry_delay @ after)))
         \<and> (\<not> (\<exists>i \<in> set exhaustion_indicators. is_substr i (lower metric))
              \<and> \<not> (\<exists>i \<in> set rate_limit_indicators. is_substr i (lower metric))
              \<longrightarrow> (status_code h = 400 \<or> status_code h = 500)
                \<and> (status_code h = 400
                     \<longleftrightarrow> is_substr ''quota'' (lower error_str)
                          \<or> is_substr ''free_tier'' (lower error_str)))"
proof (cases "parse_gemini_error_details error_str")
  case (Inl e)
  with assms show ?thesis
    by (simp add: handle_quota_rate_limit_error_def)
next
  case p: (Inr quota_details)
  show ?thesis
  proof (cases "extract_retry_delay error_str")
    case (Inl e)
    with assms p show ?thesis
      by (simp add: handle_quota_rate_limit_error_def)
  next
    case d: (Inr retry_delay)
    from assms p d have "\<exists>quota_metric.
        py_lower (dict_get quota_details ''quota_metric'' (PStr [])) = Inr quota_metric"
      by (cases "py_lower (dict_get quota_details ''quota_metric'' (PStr []))")
         (simp_all add: handle_quota_rate_limit_error_def)
    then obtain metric where
      m: "dict_get quota_details ''quota_metric'' (PStr []) = PStr metric"
      by (auto simp: py_lower_def split: pyval.splits)
    from assms have h: "(if is_quota_exhausted (lower metric) error_str then
         Inr \<lparr> status_code = 400,
               detail = dict_get quota_details ''message''
                          (PStr ''Quota exhausted. Please check your quota limits.'') \<rparr>
       else
         Inr \<lparr> status_code = 500,
               detail = PStr (py_str (dict_get quota_details ''message''
                                       (PStr ''Rate limited. Too many requests.''))
                              @ '' (Google suggests waiting '' @ string_of_nat retry_delay
                              @ ''s, but Claude Code will retry faster)'') \<rparr>)
         = (Inr h :: exn + http_exception)"
      unfolding handle_quota_rate_limit_error_def p d sbind.simps py_lower_def m pyval.case .
  have e: "(\<exists>i \<in> set exhaustion_indicators. is_substr i (lower metric))
           \<longrightarrow> status_code h = 400
             \<and> detail h = dict_get quota_details ''message''
                              (PStr ''Quota exhausted. Please check your quota limits.'')"
    using h by (auto simp: is_quota_exhausted_def split: if_splits)
  have r: "\<not> (\<exists>i \<in> set exhaustion_indicators. is_substr i (lower metric))
           \<and> (\<exists>i \<in> set rate_limit_indicators. is_substr i (lower metric))
           \<longrightarrow> status_code h = 500
             \<and> (\<exists>before after. detail h = PStr (before @ string_of_nat retry_delay @ after))"
  proof (intro impI, elim conjE)
    assume "\<not> (\<exists>i \<in> set exhaustion_indicators. is_substr i (lower metric))"
      and "\<exists>i \<in> set rate_limit_indicators. is_substr i (lower metric)"
    then have "\<not> is_quota_exhausted (lower metric) error_str"
      by (simp add: is_quota_exhausted_def)
    with h have hh: "h = \<lparr> status_code = 500,
               detail = PStr (py_str (dict_get quota_details ''message''
                                       (PStr ''Rate limited. Too many requests.''))
                              @ '' (Google suggests waiting '' @ string_of_nat retry_delay
                              @ ''s, but Claude Code will retry faster)'') \<rparr>"
      by simp
    have "detail h = PStr ((py_str (dict_get quota_details ''message''
                                       (PStr ''Rate limited. Too many requests.''))
                              @ '' (Google suggests waiting '') @ string_of_nat retry_delay
                              @ ''s, but Claude Code will retry faster)'')"
      unfolding hh by simp
    then have "\<exists>before after. detail h = PStr (before @ string_of_nat retry_delay @ after)"
      by blast
    with hh show "status_code h = 500
             \<and> (\<exists>before after. detail h = PStr (before @ string_of_nat retry_delay @ after))"
      by simp
  qed
  have n: "\<not> (\<exists>i \<in> set exhaustion_indicators. is_substr i (lower metric))
           \<and> \<not> (\<exists>i \<in> set rate_limit_indicators. is_substr i (lower metric))
           \<longrightarrow> (status_code h = 400 \<or> status_code h = 500)
             \<and> (status_code h = 400
                  \<longleftrightarrow> is_substr ''quota'' (lower error_str)
                       \<or> is_substr ''free_tier'' (lower error_str))"
    using h by (auto simp: is_quota_exhausted_def split: if_splits)
    from p d m e r n show ?thesis by blast
  qed
qed

text \<open>The message of a payload that parsed is the message the backend sent.\<close>

lemma dict_get_dict_set: "dict_get (dict_set d k v) k' dflt = (if k' = k then v else dict_get d k' dflt)"
  by (induction d) (auto simp: dict_get_def)

lemma detail_step_message:
  "detail_step details x = Inr details' \<Longrightarrow>
   dict_get details' ''message'' dflt = dict_get details ''message'' dflt"
  unfolding detail_step_def
  by (auto dest!: sbind_Inr simp: dict_get_dict_set split: if_splits)

lemma detail_loop_message:
  "detail_loop details xs = Inr details' \<Longrightarrow>
   dict_get details' ''message'' dflt = dict_get details ''message'' dflt"
proof (induction xs arbitrary: details)
  case Nil
  then show ?case by simp
next
  case (Cons x xs)
  from Cons.prems obtain d1 where "detail_step details x = Inr d1" "detail_loop d1 xs = Inr details'"
    by (auto dest!: sbind_Inr)
  with Cons.IH [of d1] detail_step_message [of details x d1] show ?case
    by simp
qed

lemma parse_details_body_message:
  assumes "parse_details_body error_msg = Inr details"
  shows "\<exists>error_json err. find_error_json error_msg = Inr error_json
           \<and> py_get error_json ''error'' (PDict []) = Inr err
           \<and> py_get err ''message'' (PStr []) = Inr (dict_get details ''message'' dflt)"
proof -
  from assms obtain error_json err code status message and items :: "pyval list" where
    "find_error_json error_msg = Inr error_json"
    "py_get error_json ''error'' (PDict []) = Inr err"
    "py_get err ''message'' (PStr []) = Inr message"
    "detail_loop [(''error_code'', code), (''error_status'', status), (''message'', message)]
                 items = Inr details"
    unfolding parse_details_body_def by (auto dest!: sbind_Inr)
  moreover from detail_loop_message [OF this(4), of dflt]
  have "dict_get details ''message'' dflt = message"
    by (simp add: dict_get_def)
  ultimately show ?thesis by blast
qed

text \<open>
  Claim C1. The classification of the claim holds whenever the handler returns
  (\<open>handler_classification\<close>), and the handler returns on the sample payloads of the
  test suite. It does not return on every backend failure: the \<open>except\<close> clauses of
  the two parsers leave out \<open>TypeError\<close>. On a payload whose \<open>details\<close> is \<open>null\<close>, where
  the raw text contains \<open>quota\<close> and the claim has status 400, the loop over the details
  raises \<open>TypeError\<close> and the handler raises it in turn.
\<close>

theorem handler_raises_on_null_details:
  "handle_quota_rate_limit_error
     (''{'' @ [dq] @ ''error'' @ [dq] @ '': {'' @ [dq] @ ''code'' @ [dq] @ '': 429, '' @ [dq] @ ''status'' @ [dq] @ '': '' @ [dq] @ ''RESOURCE_EXHAUSTED'' @ [dq] @ '', '' @ [dq] @ ''message'' @ [dq] @ '': '' @ [dq] @ ''Quota exceeded'' @ [dq] @ '', '' @ [dq] @ ''details'' @ [dq] @ '': null}}'')
   = Inl (Exn TypeError ([sq] @ ''NoneType'' @ [sq] @ '' object is not iterable''))
   \<and> is_substr ''quota'' (lower (''{'' @ [dq] @ ''error'' @ [dq] @ '': {'' @ [dq] @ ''code'' @ [dq] @ '': 429, '' @ [dq] @ ''status'' @ [dq] @ '': '' @ [dq] @ ''RESOURCE_EXHAUSTED'' @ [dq] @ '', '' @ [dq] @ ''message'' @ [dq] @ '': '' @ [dq] @ ''Quota exceeded'' @ [dq] @ '', '' @ [dq] @ ''details'' @ [dq] @ '': null}}''))"
  by code_simp

section \<open>The request translator\<close>

lemma block_loop_append:
  "block_loop r a (bs @ cs) =
     (case block_loop r a bs of Inl e \<Rightarrow> Inl e | Inr a' \<Rightarrow> block_loop r a' cs)"
  by (induction bs arbitrary: a) (auto split: sum.splits)

text \<open>Text and image blocks only fill the two accumulators, in order.\<close>

lemma block_loop_text_image:
  assumes "\<forall>b \<in> set bs. is_text_or_image b"
  shows "block_loop r a bs
         = Inr (a\<lparr>text_parts := text_parts a @ block_texts bs,
                  image_parts := image_parts a @ block_images bs\<rparr>)"
  using assms
proof (induction bs arbitrary: a)
  case Nil
  then show ?case by simp
next
  case (Cons b bs)
  then have rest: "\<forall>b \<in> set bs. is_text_or_image b" by simp
  from Cons.prems show ?case
  proof (cases b)
    case (ContentBlockText t)
    then show ?thesis
      by (simp add: Cons.IH [OF rest])
  next
    case (ContentBlockImage source)
    then show ?thesis
      by (cases "image_part source") (simp_all add: Cons.IH [OF rest])
  qed simp_all
qed

text \<open>
  Claim C3 (amended). Take a user message whose blocks are text and image blocks
  followed by one tool result, where at least one text block or one image that the
  source converts (a base64 source with \<open>media_type\<close> and \<open>data\<close>) comes first, and where
  \<open>parse_tool_result_content\<close> returns on the content of the tool result. The translation
  emits exactly two backend messages for it: the user message with the accumulated text
  and images, then the tool message with the tool-use id and the normalized content.
\<close>

theorem tool_result_splits_message:
  assumes shape: "\<forall>b \<in> set pre. is_text_or_image b"
    and some: "block_texts pre \<noteq> [] \<or> block_images pre \<noteq> []"
    and parsed: "parse_tool_result_content content = Inr parsed"
  shows "convert_message \<lparr> msg_role = User,
            msg_content = BlockContent (pre @ [ContentBlockToolResult tool_use_id content]) \<rparr>
         = Inr [user_message (block_texts pre) (block_images pre),
                tool_message tool_use_id parsed]"
proof -
  have "block_loop User empty_accumulators pre
        = Inr (empty_accumulators\<lparr>text_parts := block_texts pre,
                                   image_parts := block_images pre\<rparr>)"
    using block_loop_text_image [OF shape, of User empty_accumulators]
    by (simp add: empty_accumulators_def)
  then have "block_loop User empty_accumulators (pre @ [ContentBlockToolResult tool_use_id content])
        = Inr \<lparr> text_parts = [], image_parts = [], tool_calls = [],
                pending_tool_messages = [tool_message tool_use_id parsed],
                emitted = [user_message (block_texts pre) (block_images pre)] \<rparr>"
    using some parsed by (auto simp: block_loop_append empty_accumulators_def)
  then show ?thesis
    by (simp add: convert_message_def finalize_message_def)
qed

theorem tool_result_splits_message_witness:
  "convert_message \<lparr> msg_role = User,
      msg_content = BlockContent
        ([ContentBlockText ''What is '', ContentBlockText ''this? '']
         @ [ContentBlockToolResult ''toolu_1''
              (PList [PDict [(''type'', PStr ''text''), (''text'', PStr ''a'')],
                      PDict [(''type'', PStr ''text''), (''text'', PStr ''b'')]])]) \<rparr>
   = Inr [PDict [(''role'', PStr ''user''), (''content'', PStr ''What is this?'')],
          PDict [(''role'', PStr ''tool''), (''tool_call_id'', PStr ''toolu_1''),
                 (''content'', PStr [CHR ''a'', CHR 0x0A, CHR ''b''])]]"
proof -
  have shape: "\<forall>b \<in> set [ContentBlockText ''What is '', ContentBlockText ''this? ''].
                 is_text_or_image b"
    by simp
  have some: "block_texts [ContentBlockText ''What is '', ContentBlockText ''this? ''] \<noteq> []
              \<or> block_images [ContentBlockText ''What is '', ContentBlockText ''this? ''] \<noteq> []"
    by simp
  have parsed: "parse_tool_result_content
                  (PList [PDict [(''type'', PStr ''text''), (''text'', PStr ''a'')],
                          PDict [(''type'', PStr ''text''), (''text'', PStr ''b'')]])
                = Inr (PStr [CHR ''a'', CHR 0x0A, CHR ''b''])"
    by (simp add: parse_tool_result_content_def result_part_def dict_get_def
                  strip_def is_space_def)
  have user: "user_message (block_texts [ContentBlockText ''What is '', ContentBlockText ''this? ''])
                           (block_images [ContentBlockText ''What is '', ContentBlockText ''this? ''])
              = PDict [(''role'', PStr ''user''), (''content'', PStr ''What is this?'')]"
    by (simp add: user_message_def content_parts_of_def collapse_content_def is_text_part_def
                  dict_get_def strip_def is_space_def)
  show ?thesis
    using tool_result_splits_message [OF shape some parsed, of "''toolu_1''"]
    unfolding user tool_message_def .
qed

text \<open>
  An image whose source is not a base64 source is dropped, so a user message of such an
  image and a tool result contributes the tool message only.
\<close>

theorem tool_result_after_url_image_counterexample:
  "convert_message \<lparr> msg_role = User,
      msg_content = BlockContent
        [ContentBlockImage [(''type'', PStr ''url''), (''url'', PStr ''https://example.com/a.png'')],
         ContentBlockToolResult ''toolu_1'' (PStr ''ok'')] \<rparr>
   = Inr [PDict [(''role'', PStr ''tool''), (''tool_call_id'', PStr ''toolu_1''),
                 (''content'', PStr ''ok'')]]"
  by (simp add: convert_message_def empty_accumulators_def image_part_def dict_get_def
                parse_tool_result_content_def finalize_message_def tool_message_def)

text \<open>The two normalizations that the specification lists as testable.\<close>

lemma parse_tool_result_content_examples:
  "parse_tool_result_content PNone = Inr (PStr ''No content provided'')"
  "parse_tool_result_content
     (PList [PDict [(''type'', PStr ''text''), (''text'', PStr ''a'')],
             PDict [(''type'', PStr ''text''), (''text'', PStr ''b'')]])
   = Inr (PStr [CHR ''a'', CHR 0x0A, CHR ''b''])"
  by (simp_all add: parse_tool_result_content_def result_part_def dict_get_def
                    strip_def is_space_def)

section \<open>The response translator\<close>

lemma build_response_content:
  assumes "build_response env req x blocks = Inr response"
  shows "response_content response = (if blocks = [] then [ResponseText []] else blocks)"
proof -
  from assms obtain rid where
    "(case (as_int env (prompt_tokens x), as_int env (completion_tokens x)) of
          (Some pt, Some ct) \<Rightarrow>
            Inr \<lparr> response_id = rid,
                  response_model = echoed_model req,
                  response_role = ''assistant'',
                  response_content = (if blocks = [] then [ResponseText []] else blocks),
                  stop_reason = map_finish_reason (finish_reason x) (truthy (ex_tool_calls x)),
                  stop_sequence = None,
                  response_usage = \<lparr> usage_input_tokens = pt, usage_output_tokens = ct,
                                     cache_creation_input_tokens = 0,
                                     cache_read_input_tokens = 0 \<rparr> \<rparr>
        | _ \<Rightarrow> Inl (validation_error ''usage'')) = (Inr response :: exn + messages_response)"
    unfolding build_response_def Let_def by (cases "as_str ''id'' (ex_response_id x)") auto
  then show ?thesis
    by (cases "as_int env (prompt_tokens x)"; cases "as_int env (completion_tokens x)") auto
qed

lemma convert_body_content:
  assumes "convert_body env r req = Inr response"
  shows "response_content response \<noteq> []"
proof -
  from assms obtain x blocks where "build_response env req x blocks = Inr response"
    unfolding convert_body_def
    by (cases "extract_response env r"; cases "text_blocks_of (projr (extract_response env r))")
       auto
  from build_response_content [OF this] show ?thesis
    by simp
qed

text \<open>
  Claim C2. The translator has no exceptional result: its outer \<open>except\<close> clause catches
  every exception of its body, which \<open>convert_body\<close> models with all its raises, and the
  degraded response is built from constants. For every backend response value, of the
  object shape, the mapping shape or neither, the content of the result has at least one
  block; and when the body raises, the result is the degraded response, which has
  exactly one text block that reports a conversion error, the stop reason \<open>error\<close> and
  zero input and output tokens.
\<close>

theorem convert_litellm_to_anthropic_total:
  "response_content (convert_litellm_to_anthropic env r req) \<noteq> []
   \<and> (\<forall>e. convert_body env r req = Inl e \<longrightarrow>
          convert_litellm_to_anthropic env r req = degraded_response env req)
   \<and> response_content (degraded_response env req) = [ResponseText ''Response conversion error'']
   \<and> stop_reason (degraded_response env req) = STOP_ERROR
   \<and> usage_input_tokens (response_usage (degraded_response env req)) = 0
   \<and> usage_output_tokens (response_usage (degraded_response env req)) = 0"
proof -
  have "response_content (convert_litellm_to_anthropic env r req) \<noteq> []"
  proof (cases "convert_body env r req")
    case (Inl e)
    then show ?thesis
      by (simp add: convert_litellm_to_anthropic_def degraded_response_def)
  next
    case (Inr response)
    with convert_body_content [OF Inr] show ?thesis
      by (simp add: convert_litellm_to_anthropic_def)
  qed
  moreover have "\<forall>e. convert_body env r req = Inl e \<longrightarrow>
          convert_litellm_to_anthropic env r req = degraded_response env req"
    by (simp add: convert_litellm_to_anthropic_def)
  ultimately show ?thesis
    by (simp add: degraded_response_def)
qed

text \<open>
  A mapping-shaped response whose \<open>choices\<close> is the number 5 makes \<open>choices[0]\<close> raise
  \<open>TypeError\<close>; a response with no choices and no usage is translated without an
  exception and gets the empty text block.
\<close>

theorem convert_litellm_to_anthropic_total_witness:
  "convert_body sample_env (PDict [(''choices'', PInt 5)]) sample_request
     = Inl (Exn TypeError ([sq] @ ''int'' @ [sq] @ '' object is not subscriptable''))
   \<and> convert_litellm_to_anthropic sample_env (PDict [(''choices'', PInt 5)]) sample_request
     = degraded_response sample_env sample_request
   \<and> response_content (convert_litellm_to_anthropic sample_env (PDict [(''choices'', PInt 5)])
                         sample_request) \<noteq> []
   \<and> response_content (convert_litellm_to_anthropic sample_env (PDict [(''choices'', PList [])])
                         sample_request) = [ResponseText []]"
proof -
  have raised: "convert_body sample_env (PDict [(''choices'', PInt 5)]) sample_request
     = Inl (Exn TypeError ([sq] @ ''int'' @ [sq] @ '' object is not subscriptable''))"
    by (simp add: convert_body_def extract_response_def extract_dict_def dict_get_def)
  have empty: "response_content (convert_litellm_to_anthropic sample_env
                 (PDict [(''choices'', PList [])]) sample_request) = [ResponseText []]"
    by (simp add: convert_litellm_to_anthropic_def convert_body_def extract_response_def
                  extract_dict_def dict_get_def py_or_def as_str_def text_blocks_of_def
                  tool_blocks_of_def build_response_def sample_env_def)
  from convert_litellm_to_anthropic_total
         [of sample_env "PDict [(''choices'', PInt 5)]" sample_request] raised empty
  show ?thesis by simp
qed

section \<open>The streaming reassembler\<close>

subsection \<open>Malformed fragments\<close>

lemma is_malformed_chunk_iff:
  "is_malformed_chunk s \<longleftrightarrow>
     (strip s = []
      \<or> strip s \<in> set malformed_singles
      \<or> strip s \<in> set malformed_patterns
      \<or> (startswith (strip s) ''{'' \<and> \<not> endswith (strip s) ''}'' \<and> length (strip s) < 15)
      \<or> (startswith (strip s) ''['' \<and> \<not> endswith (strip s) '']'' \<and> length (strip s) < 10)
      \<or> (count_char CHR ''{'' (strip s) \<noteq> count_char CHR ''}'' (strip s)
          \<and> length (strip s) < 20)
      \<or> (count_char CHR ''['' (strip s) \<noteq> count_char CHR '']'' (strip s)
          \<and> length (strip s) < 20))"
proof (cases "s = []")
  case True
  then show ?thesis
    by (simp add: is_malformed_chunk_def strip_def)
next
  case False
  then show ?thesis
    unfolding is_malformed_chunk_def Let_def by auto
qed



subsection \<open>Valid fragments\<close>

lemma is_dictE:
  assumes "is_dict v"
  obtains d where "v = PDict d"
  using assms unfolding is_dict_def by (cases v) simp_all


lemma text_chunkD:
  assumes "text_chunk chunk t"
  obtains tcs fr u where "extract_delta chunk = Inr (PStr t, tcs, fr)" and "\<not> truthy tcs"
    and "extract_usage chunk = Inr u" and "t \<noteq> []" and "is_dict chunk"
  using assms unfolding text_chunk_def
  by (auto split: sum.splits)



section \<open>The scan of the buffer\<close>

subsection \<open>White space and the end marker\<close>

lemma dropWhile_keeps:
  assumes "c \<in> set s" and "\<not> P c"
  shows "c \<in> set (dropWhile P s)"
  using assms by (induction s) auto

lemma strip_keeps:
  assumes "c \<in> set s" and "\<not> is_space c"
  shows "c \<in> set (strip s)"
proof -
  from assms have "c \<in> set (rev (dropWhile is_space s))"
    by (simp add: dropWhile_keeps)
  from this assms(2) have "c \<in> set (dropWhile is_space (rev (dropWhile is_space s)))"
    by (rule dropWhile_keeps)
  then show ?thesis
    by (simp add: strip_def)
qed

lemma brace_not_in_done:
  assumes "c \<in> set s" and "c = CHR ''{'' \<or> c = CHR ''}''"
  shows "strip s \<noteq> ''[DONE]''" and "strip s \<noteq> []"
proof -
  from assms(2) have "\<not> is_space c"
    by (auto simp add: is_space_def)
  from assms(1) this have m: "c \<in> set (strip s)"
    by (rule strip_keeps)
  from m assms(2) show "strip s \<noteq> ''[DONE]''"
    by auto
  from m show "strip s \<noteq> []"
    by auto
qed

subsection \<open>The scan\<close>

lemma brace_depth_Nil: "brace_depth [] = 0"
  by (simp add: brace_depth_def count_char_def)

lemma brace_depth_Cons:
  "brace_depth (c # s)
   = (if c = CHR ''{'' then 1 else if c = CHR ''}'' then - 1 else 0) + brace_depth s"
  by (simp add: brace_depth_def count_char_def)

lemma brace_depth_append: "brace_depth (s @ t) = brace_depth s + brace_depth t"
  by (simp add: brace_depth_def count_char_def)

text \<open>While the count does not come back to zero, the scan finds nothing.\<close>

lemma scan_buffer_none:
  assumes "\<forall>k \<in> {1..length rest}. brace_count + brace_depth (take k rest) \<noteq> 0"
  shows "scan_buffer buffer i brace_count start_pos rest = (None, buffer)"
  using assms
proof (induction rest arbitrary: i brace_count start_pos)
  case Nil
  then show ?case by simp
next
  case (Cons c cs)
  define d :: int where "d = (if c = CHR ''{'' then 1 else if c = CHR ''}'' then - 1 else 0)"
  have one: "brace_count + d \<noteq> 0"
    using Cons.prems [rule_format, of 1] by (simp add: brace_depth_Cons brace_depth_Nil d_def)
  have rest: "\<forall>k \<in> {1..length cs}. (brace_count + d) + brace_depth (take k cs) \<noteq> 0"
  proof
    fix k assume "k \<in> {1..length cs}"
    then have "Suc k \<in> {1..length (c # cs)}"
      by simp
    from Cons.prems [rule_format, OF this] show "(brace_count + d) + brace_depth (take k cs) \<noteq> 0"
      by (simp add: brace_depth_Cons d_def add.assoc)
  qed
  note ih = Cons.IH [OF rest]
  show ?case
  proof (cases "c = CHR ''{''")
    case True
    with ih show ?thesis
      by (simp add: d_def)
  next
    case False
    show ?thesis
    proof (cases "c = CHR ''}''")
      case True
      with one have "brace_count - 1 \<noteq> 0"
        by (simp add: d_def)
      with True ih show ?thesis
        by (simp add: d_def split: option.splits)
    next
      case nc: False
      with False ih show ?thesis
        by (simp add: d_def)
    qed
  qed
qed

text \<open>
  When the count comes back to zero at the last character only, and the text from the
  start position to there is JSON, the scan returns its value and an empty buffer.
\<close>

lemma scan_buffer_found:
  assumes "\<forall>k \<in> {1..length mid}. brace_count + brace_depth (take k mid) \<noteq> 0"
    and "brace_count + brace_depth mid = 1"
    and "json_loads (take (Suc (i + length mid) - p) (drop p buffer)) = Some parsed"
  shows "scan_buffer buffer i brace_count (Some p) (mid @ [CHR ''}'']) = (Some parsed, [])"
  using assms
proof (induction mid arbitrary: i brace_count)
  case Nil
  then show ?case
    by (simp add: brace_depth_Nil)
next
  case (Cons c cs)
  define d :: int where "d = (if c = CHR ''{'' then 1 else if c = CHR ''}'' then - 1 else 0)"
  have one: "brace_count + d \<noteq> 0"
    using Cons.prems(1) [rule_format, of 1] by (simp add: brace_depth_Cons brace_depth_Nil d_def)
  have rest: "\<forall>k \<in> {1..length cs}. (brace_count + d) + brace_depth (take k cs) \<noteq> 0"
  proof
    fix k assume "k \<in> {1..length cs}"
    then have "Suc k \<in> {1..length (c # cs)}"
      by simp
    from Cons.prems(1) [rule_format, OF this]
    show "(brace_count + d) + brace_depth (take k cs) \<noteq> 0"
      by (simp add: brace_depth_Cons d_def add.assoc)
  qed
  from Cons.prems(2) have total: "(brace_count + d) + brace_depth cs = 1"
    by (simp add: brace_depth_Cons d_def add.assoc)
  from Cons.prems(3)
  have js: "json_loads (take (Suc (Suc i + length cs) - p) (drop p buffer)) = Some parsed"
    by simp
  note ih = Cons.IH [OF rest total js]
  show ?case
  proof (cases "c = CHR ''{''")
    case True
    with ih show ?thesis
      by (simp add: d_def)
  next
    case False
    show ?thesis
    proof (cases "c = CHR ''}''")
      case True
      with one have "brace_count - 1 \<noteq> 0"
        by (simp add: d_def)
      with True ih show ?thesis
        by (simp add: d_def)
    next
      case nc: False
      with False ih show ?thesis
        by (simp add: d_def)
    qed
  qed
qed

text \<open>The shape of a text on which the scan finds one object that is the whole text.\<close>

lemma single_object_shape:
  assumes "single_object s"
  obtains mid where "s = CHR ''{'' # mid @ [CHR ''}'']"
    and "\<forall>k \<in> {1..length mid}. 1 + brace_depth (take k mid) \<noteq> 0"
    and "1 + brace_depth mid = 1"
proof -
  from assms have ne: "s \<noteq> []" and h: "hd s = CHR ''{''" and z: "brace_depth s = 0"
    and pos: "\<forall>n \<in> {1..<length s}. 0 < brace_depth (take n s)"
    unfolding single_object_def by blast+
  from ne h obtain t where t: "s = CHR ''{'' # t"
    by (cases s) auto
  have "t \<noteq> []"
  proof
    assume "t = []"
    with t z show False
      by (simp add: brace_depth_Cons brace_depth_Nil)
  qed
  then obtain mid l where ml: "t = mid @ [l]"
    by (cases t rule: rev_cases) auto
  have s: "s = CHR ''{'' # mid @ [l]"
    by (simp add: t ml)
  have p: "0 < 1 + brace_depth (take k mid)" if "k \<le> length mid" for k
  proof -
    from that have "Suc k \<in> {1..<length s}"
      by (simp add: s)
    from pos [rule_format, OF this] that show ?thesis
      by (simp add: s brace_depth_Cons)
  qed
  from p [of "length mid"] have pm: "0 < 1 + brace_depth mid"
    by simp
  from z have "1 + brace_depth mid + brace_depth [l] = 0"
    by (simp add: s brace_depth_Cons brace_depth_append)
  with pm have l: "l = CHR ''}''" and m: "1 + brace_depth mid = 1"
    by (auto simp add: brace_depth_Cons brace_depth_Nil split: if_splits)
  have "\<forall>k \<in> {1..length mid}. 1 + brace_depth (take k mid) \<noteq> 0"
    using p by fastforce
  with s l m that show ?thesis
    by blast
qed

lemma single_object_parsed:
  assumes "single_object s" and "json_loads s = Some parsed"
  shows "try_parse_buffered_chunk s = (Some parsed, [])"
proof -
  from assms(1) obtain mid where s: "s = CHR ''{'' # mid @ [CHR ''}'']"
    and n: "\<forall>k \<in> {1..length mid}. 1 + brace_depth (take k mid) \<noteq> 0"
    and m: "1 + brace_depth mid = 1"
    by (rule single_object_shape)
  have "CHR ''{'' \<in> set s"
    by (simp add: s)
  then have ne: "strip s \<noteq> []"
    by (rule brace_not_in_done) simp
  have "take (Suc (1 + length mid) - 0) (drop 0 s) = s"
    by (simp add: s)
  with assms(2)
  have "json_loads (take (Suc (1 + length mid) - 0) (drop 0 s)) = Some parsed"
    by simp
  from scan_buffer_found [OF n m this]
  have "scan_buffer s 1 1 (Some 0) (mid @ [CHR ''}'']) = (Some parsed, [])" .
  then have "scan_buffer s 0 0 None s = (Some parsed, [])"
    by (subst (2) s) simp
  with ne show ?thesis
    by (simp add: try_parse_buffered_chunk_def)
qed

lemma single_object_prefix_held:
  assumes "single_object (f1 @ f2)" and "f1 \<noteq> []" and "f2 \<noteq> []"
  shows "try_parse_buffered_chunk f1 = (None, f1)"
proof -
  from assms(1) have h: "hd (f1 @ f2) = CHR ''{''"
    and pos: "\<forall>n \<in> {1..<length (f1 @ f2)}. 0 < brace_depth (take n (f1 @ f2))"
    unfolding single_object_def by blast+
  from h assms(2) have "CHR ''{'' \<in> set f1"
    by (cases f1) auto
  then have ne: "strip f1 \<noteq> []"
    by (rule brace_not_in_done) simp
  have "\<forall>k \<in> {1..length f1}. 0 + brace_depth (take k f1) \<noteq> 0"
  proof
    fix k assume k: "k \<in> {1..length f1}"
    with assms(3) have "k \<in> {1..<length (f1 @ f2)}"
      by (cases f2) auto
    from pos [rule_format, OF this] k show "0 + brace_depth (take k f1) \<noteq> 0"
      by simp
  qed
  then have "scan_buffer f1 0 0 None f1 = (None, f1)"
    by (rule scan_buffer_none)
  with ne show ?thesis
    by (simp add: try_parse_buffered_chunk_def)
qed

subsection \<open>The text of a chunk with a plain text delta\<close>

lemma lex_plain:
  assumes "list_all plain_char t"
  shows "lex (LStr acc) toks (t @ rest) = lex (LStr (rev t @ acc)) toks rest"
  using assms
proof (induction t arbitrary: acc)
  case Nil
  then show ?case by simp
next
  case (Cons c cs)
  from Cons.prems have "plain_char c" and cs: "list_all plain_char cs"
    by simp_all
  then have c: "c \<noteq> CHR 0x22" "c \<noteq> CHR 0x5C" "\<not> (of_char c :: nat) < 32"
    by (auto simp add: plain_char_def)
  show ?case
    using c Cons.IH [OF cs] by simp
qed

lemma delta_fragment_loads:
  assumes "list_all plain_char t"
  shows "json_loads (delta_fragment t) = Some (delta_chunk t)"
proof -
  have "lex LIdle [] (delta_fragment t)
        = Some [TLBrace, TString ''choices'', TColon, TLBracket, TLBrace, TString ''delta'',
                TColon, TLBrace, TString ''content'', TColon, TString t,
                TRBrace, TRBrace, TRBracket, TRBrace]"
    by (simp add: delta_fragment_def delta_prefix_def delta_suffix_def quoted_def dq_def
                  is_json_space_def punct_token_def lex_plain [OF assms])
  then show ?thesis
    by (simp add: json_loads_def delta_chunk_def)
qed

lemma delta_chunk_text:
  assumes "t \<noteq> []"
  shows "text_chunk (delta_chunk t) t"
  using assms
  by (simp add: text_chunk_def is_dict_def delta_chunk_def extract_delta_def extract_usage_def
                dict_get_def)

lemma brace_depth_plain:
  assumes "list_all plain_char t"
  shows "brace_depth t = 0"
  using assms
  by (induction t) (auto simp add: brace_depth_Nil brace_depth_Cons plain_char_def)

lemma prefix_depths: "list_all (\<lambda>k. 0 < brace_depth (take k delta_prefix)) [1..<33]"
  by code_simp

lemma brace_depth_delta_prefix:
  assumes "0 < n"
  shows "0 < brace_depth (take n delta_prefix)"
proof (cases "n < 33")
  case True
  with assms have "n \<in> set [1..<33]"
    by simp
  with prefix_depths show ?thesis
    unfolding list_all_iff by blast
next
  case False
  have "length delta_prefix = 33" "brace_depth delta_prefix = 3"
    by code_simp+
  with False show ?thesis
    by simp
qed

lemma suffix_depths: "list_all (\<lambda>k. - 2 \<le> brace_depth (take k delta_suffix)) [0..<5]"
  by code_simp

lemma brace_depth_delta_suffix:
  assumes "m < 5"
  shows "- 2 \<le> brace_depth (take m delta_suffix)"
proof -
  from assms have "m \<in> set [0..<5]"
    by simp
  with suffix_depths show ?thesis
    unfolding list_all_iff by blast
qed

lemma delta_fragment_single_object:
  assumes "list_all plain_char t"
  shows "single_object (delta_fragment t)"
proof -
  have lp: "length delta_prefix = 33" and ls: "length delta_suffix = 5"
    and dp: "brace_depth delta_prefix = 3" and ds: "brace_depth delta_suffix = - 3"
    and hp: "hd delta_prefix = CHR ''{''" and np: "delta_prefix \<noteq> []"
    by code_simp+
  have z: "brace_depth (delta_fragment t) = 0"
    by (simp add: delta_fragment_def brace_depth_append dp ds brace_depth_plain [OF assms])
  have pos: "0 < brace_depth (take n (delta_fragment t))"
    if n: "n \<in> {1..<length (delta_fragment t)}" for n
  proof -
    from assms have "list_all plain_char (take (n - 33) t)"
      by (simp add: list_all_iff) (meson in_set_takeD)
    then have t0: "brace_depth (take (n - 33) t) = 0"
      by (rule brace_depth_plain)
    from n have "n < 38 + length t"
      by (simp add: delta_fragment_def lp ls)
    then have "n - 33 - length t < 5"
      by arith
    then have s: "- 2 \<le> brace_depth (take (n - 33 - length t) delta_suffix)"
      by (rule brace_depth_delta_suffix)
    from n have "0 < n"
      by simp
    then have p: "0 < brace_depth (take n delta_prefix)"
      by (rule brace_depth_delta_prefix)
    have "brace_depth (take n (delta_fragment t))
          = brace_depth (take n delta_prefix) + brace_depth (take (n - 33) t)
            + brace_depth (take (n - 33 - length t) delta_suffix)"
      by (simp add: delta_fragment_def brace_depth_append lp)
    also have "\<dots> > 0"
    proof (cases "n \<le> 33")
      case True
      with p t0 show ?thesis
        by (simp add: brace_depth_Nil)
    next
      case False
      then have "take n delta_prefix = delta_prefix"
        by (simp add: lp)
      with dp t0 s show ?thesis
        by simp
    qed
    finally show ?thesis .
  qed
  from np hp z pos show ?thesis
    unfolding single_object_def by (simp add: delta_fragment_def)
qed

subsection \<open>Long fragments\<close>

lemma strip_id:
  assumes "s \<noteq> []" and "\<not> is_space (hd s)" and "\<not> is_space (last s)"
  shows "strip s = s"
proof -
  from assms(2) have a: "dropWhile is_space s = s"
    by (simp add: dropWhile_eq_self_iff)
  from assms(1,3) have "\<not> is_space (hd (rev s))"
    by (simp add: hd_rev)
  then have "dropWhile is_space (rev s) = rev s"
    by (simp add: dropWhile_eq_self_iff)
  with a show ?thesis
    by (simp add: strip_def)
qed

lemma long_not_malformed:
  assumes "20 \<le> length (strip s)"
  shows "\<not> is_malformed_chunk s"
proof -
  have "length x < 20" if "x \<in> set malformed_singles \<or> x \<in> set malformed_patterns" for x
    using that unfolding malformed_singles_def malformed_patterns_def by auto
  with assms show ?thesis
    unfolding is_malformed_chunk_iff by fastforce
qed

lemma scan_buffer_no_open:
  assumes "CHR ''{'' \<notin> set rest"
  shows "scan_buffer buffer i brace_count None rest = (None, buffer)"
  using assms by (induction rest arbitrary: i brace_count) auto

section \<open>Malformed and valid fragments in one stream\<close>









section \<open>Reassembly of a chunk from two fragments\<close>

subsection \<open>The two rounds\<close>

lemma text_chunk_process:
  assumes "text_chunk chunk t"
  shows "\<exists>st' c. process_chunk st chunk
                  = (st', [ContentBlockDeltaText text_block_index t], Inr c)
                \<and> accumulated_text st' = accumulated_text st @ t
                \<and> chunk_buffer st' = chunk_buffer st"
proof -
  from assms obtain tcs fr u where
    x: "extract_delta chunk = Inr (PStr t, tcs, fr)" and tcs: "\<not> truthy tcs"
    and u: "extract_usage chunk = Inr u" and t: "t \<noteq> []"
    by (rule text_chunkD)
  show ?thesis
    by (cases u; cases "truthy fr")
       (auto simp add: process_chunk_def x u text_phase_def t tool_phase_def tcs finish_phase_def)
qed

lemma split_chunk_rounds:
  assumes "chunk_buffer st = []"
    and "single_object (f1 @ f2)" and "json_loads (f1 @ f2) = Some chunk"
    and "text_chunk chunk t"
    and "\<not> is_malformed_chunk f1" and "\<not> is_malformed_chunk f2"
    and "length f1 \<le> 10000"
  shows "\<exists>st1 st2 c.
           step st (Chunk (PStr f1)) = (Continue, st1, [])
           \<and> chunk_buffer st1 = f1
           \<and> step st1 (Chunk (PStr f2)) = (c, st2, [ContentBlockDeltaText text_block_index t])
           \<and> chunk_buffer st2 = []
           \<and> accumulated_text st2 = accumulated_text st @ t
           \<and> snd (stream_loop st [Chunk (PStr f1), Chunk (PStr f2)])
             = [ContentBlockDeltaText text_block_index t]"
proof -
  from assms(5) have n1: "f1 \<noteq> []"
    by (auto simp add: is_malformed_chunk_def)
  from assms(6) have n2: "f2 \<noteq> []"
    by (auto simp add: is_malformed_chunk_def)
  from assms(2) obtain mid where shape: "f1 @ f2 = CHR ''{'' # mid @ [CHR ''}'']"
    by (rule single_object_shape)
  from shape n1 have "CHR ''{'' \<in> set f1"
    by (cases f1) auto
  then have d1: "strip f1 \<noteq> ''[DONE]''"
    by (rule brace_not_in_done) simp
  from shape n2 have "last f2 = CHR ''}''"
    by (metis last_appendR last_snoc append_Cons)
  with n2 have "CHR ''}'' \<in> set f2"
    by (metis last_in_set)
  then have d2: "strip f2 \<noteq> ''[DONE]''"
    by (rule brace_not_in_done) simp
  note p1 = single_object_prefix_held [OF assms(2) n1 n2]
  note p2 = single_object_parsed [OF assms(2) assms(3)]
  define st1 where "st1 = st\<lparr>consecutive_errors := 0, all_chunks := all_chunks st @ [PStr f1],
                              chunk_buffer := f1\<rparr>"
  have s1: "step st (Chunk (PStr f1)) = (Continue, st1, [])"
    using assms(1,5,7) d1 p1 by (simp add: step_def string_chunk_def st1_def)
  have b1: "chunk_buffer st1 = f1" and a1: "accumulated_text st1 = accumulated_text st"
    by (simp_all add: st1_def)
  define st1' where "st1' = st1\<lparr>consecutive_errors := 0, all_chunks := all_chunks st1 @ [PStr f2],
                                chunk_buffer := []\<rparr>"
  from text_chunk_process [OF assms(4), of st1'] obtain st2 c where
    pc: "process_chunk st1' chunk = (st2, [ContentBlockDeltaText text_block_index t], Inr c)"
    and a2: "accumulated_text st2 = accumulated_text st1' @ t"
    and b2: "chunk_buffer st2 = chunk_buffer st1'"
    by blast
  from assms(4) have "is_dict chunk"
    by (rule text_chunkD)
  then obtain dct where dct: "chunk = PDict dct"
    by (rule is_dictE)
  have sc: "structured_chunk st1' chunk = (c, st2, [ContentBlockDeltaText text_block_index t])"
    unfolding structured_chunk_def pc by (simp add: dct)
  have s2: "step st1 (Chunk (PStr f2)) = (c, st2, [ContentBlockDeltaText text_block_index t])"
    using assms(6) d2 p2 b1 sc by (simp add: step_def string_chunk_def st1'_def)
  have r: "chunk_buffer st2 = []" "accumulated_text st2 = accumulated_text st @ t"
    using a2 b2 a1 by (simp_all add: st1'_def)
  have l: "snd (stream_loop st [Chunk (PStr f1), Chunk (PStr f2)])
           = [ContentBlockDeltaText text_block_index t]"
    by (cases c) (simp_all add: s1 s2)
  from s1 b1 s2 r l show ?thesis
    by blast
qed

lemma text_deltas_append:
  "text_deltas (xs @ ys) = text_deltas xs @ text_deltas ys"
  by (simp add: text_deltas_def)

lemma final_events_no_text_delta:
  "text_deltas (final_events stream_chunk_builder st) = []"
proof -
  define stops where "stops = ContentBlockStop text_block_index
      # map (\<lambda>p. ContentBlockStop (tool_index (snd p))) (current_tool_calls st)"
  have n: "text_deltas stops = []"
    by (simp add: stops_def text_deltas_def comp_def)
  have "final_events stream_chunk_builder st = stops
        \<or> (\<exists>reason i out. final_events stream_chunk_builder st
              = stops @ [MessageDelta reason i out, MessageStop])"
    unfolding final_events_def Let_def stops_def [symmetric]
    by (auto split: sum.splits)
  moreover have "text_deltas [MessageDelta reason i out, MessageStop] = []" for reason i out
    by (simp add: text_deltas_def)
  ultimately show ?thesis
    using n by (auto simp add: text_deltas_append)
qed

text \<open>
  C4. At an empty buffer, let the text of a chunk arrive as two fragments that are not
  malformed, the first of at most 10000 characters, where the text is JSON, its braces,
  those inside strings counted like the others, balance at its last character and
  nowhere before, and the chunk is a dictionary with a non-empty text delta and no tool
  calls whose fields are read without an exception. Then the first round yields no
  event and leaves the first fragment in the buffer, and the second round yields
  exactly one event, the \<open>text_delta\<close> with the whole text delta of the chunk, adds
  that text to the accumulated text and leaves the buffer empty; and the events of the
  handler for the stream of these two fragments hold exactly one \<open>text_delta\<close>, with
  that text.
\<close>

theorem split_chunk_yields_one_text_delta:
  assumes "chunk_buffer st = []"
    and "single_object (f1 @ f2)" and "json_loads (f1 @ f2) = Some chunk"
    and "text_chunk chunk t"
    and "\<not> is_malformed_chunk f1" and "\<not> is_malformed_chunk f2"
    and "length f1 \<le> 10000"
  shows "(\<exists>st1 st2 c.
           step st (Chunk (PStr f1)) = (Continue, st1, [])
           \<and> chunk_buffer st1 = f1
           \<and> step st1 (Chunk (PStr f2)) = (c, st2, [ContentBlockDeltaText text_block_index t])
           \<and> chunk_buffer st2 = []
           \<and> accumulated_text st2 = accumulated_text st @ t
           \<and> snd (stream_loop st [Chunk (PStr f1), Chunk (PStr f2)])
             = [ContentBlockDeltaText text_block_index t])
         \<and> text_deltas
             (handle_streaming_with_recovery stream_chunk_builder message_id original_request
                input_tokens_arg [Chunk (PStr f1), Chunk (PStr f2)]) = [t]"
proof -
  have b: "chunk_buffer initial_state = []"
    by (simp add: initial_state_def)
  from split_chunk_rounds [OF b assms(2-7)]
  have l: "snd (stream_loop initial_state [Chunk (PStr f1), Chunk (PStr f2)])
           = [ContentBlockDeltaText text_block_index t]"
    by blast
  obtain stf evsf where
    sl: "stream_loop initial_state [Chunk (PStr f1), Chunk (PStr f2)] = (stf, evsf)"
    by (cases "stream_loop initial_state [Chunk (PStr f1), Chunk (PStr f2)]") auto
  with l have e: "evsf = [ContentBlockDeltaText text_block_index t]"
    by simp
  have h: "handle_streaming_with_recovery stream_chunk_builder message_id original_request
             input_tokens_arg [Chunk (PStr f1), Chunk (PStr f2)]
           = [MessageStart message_id (echoed_model original_request) input_tokens_arg,
              ContentBlockStartText text_block_index, Ping]
             @ [ContentBlockDeltaText text_block_index t]
             @ final_events stream_chunk_builder stf"
    unfolding handle_streaming_with_recovery_def sl e by simp
  have "text_deltas (handle_streaming_with_recovery stream_chunk_builder message_id
                       original_request input_tokens_arg [Chunk (PStr f1), Chunk (PStr f2)])
        = [t]"
    unfolding h text_deltas_append
    by (simp add: final_events_no_text_delta) (simp add: text_deltas_def)
  with split_chunk_rounds [OF assms] show ?thesis
    by blast
qed

theorem split_chunk_yields_one_text_delta_witness:
  "(\<exists>st1 st2 c.
     step initial_state (Chunk (PStr (take 20 (delta_fragment ''Hello''))))
       = (Continue, st1, [])
     \<and> chunk_buffer st1 = take 20 (delta_fragment ''Hello'')
     \<and> step st1 (Chunk (PStr (drop 20 (delta_fragment ''Hello''))))
       = (c, st2, [ContentBlockDeltaText 0 ''Hello''])
     \<and> chunk_buffer st2 = []
     \<and> accumulated_text st2 = ''Hello''
     \<and> snd (stream_loop initial_state
               [Chunk (PStr (take 20 (delta_fragment ''Hello''))),
                Chunk (PStr (drop 20 (delta_fragment ''Hello'')))])
       = [ContentBlockDeltaText 0 ''Hello''])
   \<and> text_deltas
       (handle_streaming_with_recovery (\<lambda>chunks. Inr PNone) ''msg_1'' sample_request 42
          [Chunk (PStr (take 20 (delta_fragment ''Hello''))),
           Chunk (PStr (drop 20 (delta_fragment ''Hello'')))]) = [''Hello'']"
proof -
  define f1 where "f1 = take 20 (delta_fragment ''Hello'')"
  define f2 where "f2 = drop 20 (delta_fragment ''Hello'')"
  have b: "chunk_buffer initial_state = []"
    by (simp add: initial_state_def)
  have o: "single_object (f1 @ f2)"
    unfolding f1_def f2_def by code_simp
  have j: "json_loads (f1 @ f2) = Some (delta_chunk ''Hello'')"
    unfolding f1_def f2_def by code_simp
  have c: "text_chunk (delta_chunk ''Hello'') ''Hello''"
    by code_simp
  have m: "\<not> is_malformed_chunk f1" "\<not> is_malformed_chunk f2"
    unfolding f1_def f2_def by code_simp+
  have n: "length f1 \<le> 10000"
    unfolding f1_def by code_simp
  have a: "accumulated_text initial_state @ ''Hello'' = ''Hello''"
    by (simp add: initial_state_def)
  from split_chunk_yields_one_text_delta
         [OF b o j c m n, of "\<lambda>chunks. Inr PNone" "''msg_1''" sample_request 42]
  show ?thesis
    unfolding a text_block_index_def f1_def f2_def .
qed

subsection \<open>A first fragment of more than 10000 characters\<close>

lemma oversized_fragment_cleared:
  assumes "chunk_buffer st = []" and "\<not> is_malformed_chunk f" and "strip f \<noteq> ''[DONE]''"
    and "try_parse_buffered_chunk f = (None, f)" and "10000 < length f"
  shows "step st (Chunk (PStr f))
         = (Continue,
            st\<lparr>consecutive_errors := 0, all_chunks := all_chunks st @ [PStr f],
               chunk_buffer := []\<rparr>, [])"
  using assms by (simp add: step_def string_chunk_def)

lemma oversized_first_fragment:
  fixes n m :: nat
  assumes n: "9967 < n" and m: "20 \<le> m"
  shows "(delta_prefix @ replicate n CHR ''a'') @ (replicate m CHR ''a'' @ delta_suffix)
           = delta_fragment (replicate (n + m) CHR ''a'')
         \<and> json_loads (delta_fragment (replicate (n + m) CHR ''a''))
           = Some (delta_chunk (replicate (n + m) CHR ''a''))
         \<and> text_chunk (delta_chunk (replicate (n + m) CHR ''a'')) (replicate (n + m) CHR ''a'')
         \<and> single_object (delta_fragment (replicate (n + m) CHR ''a''))
         \<and> \<not> is_malformed_chunk (delta_prefix @ replicate n CHR ''a'')
         \<and> \<not> is_malformed_chunk (replicate m CHR ''a'' @ delta_suffix)
         \<and> snd (stream_loop initial_state
                  [Chunk (PStr (delta_prefix @ replicate n CHR ''a'')),
                   Chunk (PStr (replicate m CHR ''a'' @ delta_suffix))]) = []"
proof -
  define t where "t = replicate (n + m) CHR ''a''"
  define f1 where "f1 = delta_prefix @ replicate n CHR ''a''"
  define f2 where "f2 = replicate m CHR ''a'' @ delta_suffix"
  have pa: "plain_char CHR ''a''"
    by code_simp
  then have pt: "list_all plain_char t"
    by (simp add: t_def list_all_iff)
  have e: "f1 @ f2 = delta_fragment t"
    by (simp add: f1_def f2_def t_def delta_fragment_def replicate_add)
  note j = delta_fragment_loads [OF pt]
  from m have "t \<noteq> []"
    by (auto simp add: t_def)
  then have c: "text_chunk (delta_chunk t) t"
    by (rule delta_chunk_text)
  note o = delta_fragment_single_object [OF pt]
  have lp: "length delta_prefix = 33" and hp: "hd delta_prefix = CHR ''{''"
    and np: "delta_prefix \<noteq> []"
    by code_simp+
  have ls: "length delta_suffix = 5" and las: "last delta_suffix = CHR ''}''"
    and ns: "delta_suffix \<noteq> []" and os: "CHR ''{'' \<notin> set delta_suffix"
    by code_simp+
  have sp: "\<not> is_space CHR ''{''" "\<not> is_space CHR ''a''" "\<not> is_space CHR ''}''"
    by code_simp+
  have n1: "f1 \<noteq> []" and n2: "f2 \<noteq> []"
    by (simp_all add: f1_def f2_def np ns)
  have h1: "hd f1 = CHR ''{''"
    by (simp add: f1_def np hp)
  from n have l1: "last f1 = CHR ''a''"
    by (simp add: f1_def)
  from m have h2: "hd f2 = CHR ''a''"
    by (cases m) (simp_all add: f2_def)
  have l2: "last f2 = CHR ''}''"
    by (simp add: f2_def ns las)
  have "strip f1 = f1"
    using n1 by (rule strip_id) (simp_all add: h1 l1 sp)
  then have "20 \<le> length (strip f1)"
    by (simp add: f1_def lp)
  then have m1: "\<not> is_malformed_chunk f1"
    by (rule long_not_malformed)
  have s2: "strip f2 = f2"
    using n2 by (rule strip_id) (simp_all add: h2 l2 sp)
  with m have "20 \<le> length (strip f2)"
    by (simp add: f2_def)
  then have m2: "\<not> is_malformed_chunk f2"
    by (rule long_not_malformed)
  from o e have o': "single_object (f1 @ f2)"
    by simp
  note p1 = single_object_prefix_held [OF o' n1 n2]
  from n1 h1 have "CHR ''{'' \<in> set f1"
    by (metis hd_in_set)
  then have d1: "strip f1 \<noteq> ''[DONE]''"
    by (rule brace_not_in_done) simp
  from n have big: "10000 < length f1"
    by (simp add: f1_def lp)
  have b: "chunk_buffer initial_state = []"
    by (simp add: initial_state_def)
  note r1 = oversized_fragment_cleared [OF b m1 d1 p1 big]
  from n2 l2 have "CHR ''}'' \<in> set f2"
    by (metis last_in_set)
  then have d2: "strip f2 \<noteq> ''[DONE]''"
    by (rule brace_not_in_done) simp
  have "CHR ''{'' \<notin> set f2"
    using os by (auto simp add: f2_def)
  then have "scan_buffer f2 0 0 None f2 = (None, f2)"
    by (rule scan_buffer_no_open)
  with s2 n2 have p2: "try_parse_buffered_chunk f2 = (None, f2)"
    by (simp add: try_parse_buffered_chunk_def)
  have r2: "\<exists>st2. step (initial_state\<lparr>consecutive_errors := 0,
                               all_chunks := all_chunks initial_state @ [PStr f1],
                               chunk_buffer := []\<rparr>) (Chunk (PStr f2))
              = (Continue, st2, [])"
    using m2 d2 p2 by (simp add: step_def string_chunk_def)
  then have l: "snd (stream_loop initial_state [Chunk (PStr f1), Chunk (PStr f2)]) = []"
    by (auto simp add: r1)
  from e j c o m1 m2 l show ?thesis
    unfolding t_def f1_def f2_def by blast
qed

text \<open>
  The buffer is cleared when it holds more than 10000 characters without a complete
  object, so a chunk whose first fragment is longer than that is lost: the text of a
  chunk with a text delta of 10020 letters, in a first fragment of 10033 characters and
  a second one of 25, neither malformed, yields no event at all.
\<close>

theorem oversized_first_fragment_counterexample:
  "(delta_prefix @ replicate 10000 CHR ''a'') @ (replicate 20 CHR ''a'' @ delta_suffix)
     = delta_fragment (replicate (10000 + 20) CHR ''a'')
   \<and> json_loads (delta_fragment (replicate (10000 + 20) CHR ''a''))
     = Some (delta_chunk (replicate (10000 + 20) CHR ''a''))
   \<and> text_chunk (delta_chunk (replicate (10000 + 20) CHR ''a''))
        (replicate (10000 + 20) CHR ''a'')
   \<and> single_object (delta_fragment (replicate (10000 + 20) CHR ''a''))
   \<and> \<not> is_malformed_chunk (delta_prefix @ replicate 10000 CHR ''a'')
   \<and> \<not> is_malformed_chunk (replicate 20 CHR ''a'' @ delta_suffix)
   \<and> snd (stream_loop initial_state
            [Chunk (PStr (delta_prefix @ replicate 10000 CHR ''a'')),
             Chunk (PStr (replicate 20 CHR ''a'' @ delta_suffix))]) = []"
proof -
  have "(9967 :: nat) < 10000" and "(20 :: nat) \<le> 20"
    by simp_all
  then show ?thesis
    by (rule oversized_first_fragment)
qed

text \<open>
  The scan counts a brace inside a string like any other: the chunk with the text delta
  \<open>a}b\<close>, in two fragments that are not malformed, is never found in the buffer, and
  the stream yields no text delta for it.
\<close>

lemma brace_inside_string_lost:
  "json_loads (delta_fragment ''a}b'') = Some (delta_chunk ''a}b'')
   \<and> text_chunk (delta_chunk ''a}b'') ''a}b''
   \<and> \<not> is_malformed_chunk (take 20 (delta_fragment ''a}b''))
   \<and> \<not> is_malformed_chunk (drop 20 (delta_fragment ''a}b''))
   \<and> snd (stream_loop initial_state
            [Chunk (PStr (take 20 (delta_fragment ''a}b''))),
             Chunk (PStr (drop 20 (delta_fragment ''a}b'')))]) = []"
  by code_simp

section \<open>The token counts of a stream\<close>

subsection \<open>What the loop leaves unchanged\<close>

lemma tool_arguments_inv:
  assumes "tool_arguments st evs tool_call_id f = (st', evs', r)" and "list_all is_block_event evs"
  shows "token_counts st' = token_counts st \<and> final_stop_reason st' = final_stop_reason st
         \<and> list_all is_block_event evs'"
  using assms unfolding tool_arguments_def Let_def
  by (auto simp add: token_counts_def is_block_event_def split: sum.splits option.splits if_splits)

lemma tool_step_inv:
  assumes "tool_step st tc = (st', evs', r)"
  shows "token_counts st' = token_counts st \<and> final_stop_reason st' = final_stop_reason st
         \<and> list_all is_block_event evs'"
proof (cases "tool_named tc")
  case False
  with assms show ?thesis
    by (simp add: tool_step_def)
next
  case True
  show ?thesis
  proof (cases "py_getattr tc ''id''")
    case (Inl e)
    with assms True show ?thesis
      by (simp add: tool_step_def Let_def)
  next
    case (Inr tool_call_id)
    show ?thesis
    proof (cases "hashable tool_call_id \<and> map_of (current_tool_calls st) tool_call_id = None")
      case False
      with assms True Inr show ?thesis
        using tool_arguments_inv [of st "[]" tool_call_id _ st' evs' r]
        by (auto simp add: tool_step_def Let_def split: if_splits)
    next
      case new: True
      show ?thesis
      proof (cases "py_getattr (py_getattr_default tc ''function'' PNone) ''arguments''")
        case (Inl e)
        with assms True Inr new show ?thesis
          by (auto simp add: tool_step_def Let_def token_counts_def)
      next
        case args: (Inr arguments)
        define st2 where "st2 = st\<lparr>tool_block_counter := tool_block_counter st + 1,
            current_tool_calls := current_tool_calls st @
              [(tool_call_id,
                \<lparr> tool_index = text_block_index + (tool_block_counter st + 1),
                  tool_name = py_or (py_getattr_default
                                       (py_getattr_default tc ''function'' PNone) ''name'' PNone)
                                    (PStr []),
                  args_buffer = py_or arguments (PStr []) \<rparr>)]\<rparr>"
        define ev where "ev = ContentBlockStartToolUse
            (text_block_index + (tool_block_counter st + 1)) tool_call_id
            (py_or (py_getattr_default (py_getattr_default tc ''function'' PNone) ''name'' PNone)
                   (PStr []))"
        have t2: "token_counts st2 = token_counts st"
          "final_stop_reason st2 = final_stop_reason st"
          by (simp_all add: st2_def token_counts_def)
        have b: "list_all is_block_event [ev]"
          by (simp add: ev_def is_block_event_def)
        show ?thesis
        proof (cases "render_event ev")
          case failed: (Inl e)
          with assms True Inr new args have "st' = st2 \<and> evs' = []"
            unfolding st2_def ev_def by (simp add: tool_step_def Let_def)
          with t2 show ?thesis
            by simp
        next
          case rendered: (Inr t)
          with assms True Inr new args
          have "tool_arguments st2 [ev] tool_call_id (py_getattr_default tc ''function'' PNone)
                = (st', evs', r)"
            unfolding st2_def ev_def by (simp add: tool_step_def Let_def)
          from tool_arguments_inv [OF this b] t2 show ?thesis
            by simp
        qed
      qed
    qed
  qed
qed

lemma tool_loop_inv:
  assumes "tool_loop st tcs = (st', evs', r)"
  shows "token_counts st' = token_counts st \<and> final_stop_reason st' = final_stop_reason st
         \<and> list_all is_block_event evs'"
  using assms
proof (induction tcs arbitrary: st st' evs' r)
  case Nil
  then show ?case by simp
next
  case (Cons tc tcs)
  obtain st1 evs1 r1 where s: "tool_step st tc = (st1, evs1, r1)"
    by (cases "tool_step st tc") auto
  note i = tool_step_inv [OF s]
  show ?case
  proof (cases r1)
    case (Some e)
    with Cons.prems s i show ?thesis
      by simp
  next
    case None
    obtain st2 evs2 r2 where l: "tool_loop st1 tcs = (st2, evs2, r2)"
      by (cases "tool_loop st1 tcs") auto
    from Cons.IH [OF l] Cons.prems s i None l show ?thesis
      by auto
  qed
qed

lemma tool_phase_inv:
  assumes "tool_phase st tcs = (st', evs', r)"
  shows "token_counts st' = token_counts st \<and> final_stop_reason st' = final_stop_reason st
         \<and> list_all is_block_event evs'"
  using assms tool_loop_inv unfolding tool_phase_def
  by (auto split: if_splits sum.splits)

lemma text_phase_inv:
  assumes "text_phase st d = (st', evs', r)"
  shows "token_counts st' = token_counts st \<and> final_stop_reason st' = final_stop_reason st
         \<and> list_all is_block_event evs'"
  using assms unfolding text_phase_def
  by (auto simp add: token_counts_def is_block_event_def split: if_splits pyval.splits)

lemma finish_phase_inv:
  assumes "finish_phase st fr = (st', c)"
  shows "token_counts st' = token_counts st"
  using assms unfolding finish_phase_def
  by (auto simp add: token_counts_def split: if_splits)

lemma count_error_inv:
  assumes "count_error st = (c, st', evs')"
  shows "token_counts st' = token_counts st \<and> final_stop_reason st' = final_stop_reason st
         \<and> list_all is_block_event evs'"
  using assms unfolding count_error_def Let_def
  by (auto simp add: token_counts_def split: if_splits)

lemma handle_exception_inv:
  assumes "handle_exception st e = (c, st', evs')"
  shows "token_counts st' = token_counts st \<and> final_stop_reason st' = final_stop_reason st
         \<and> list_all is_block_event evs'"
proof -
  have "handle_exception st e = count_error st
        \<or> (token_counts st' = token_counts st \<and> final_stop_reason st' = final_stop_reason st
         \<and> list_all is_block_event evs')"
    using assms unfolding handle_exception_def Let_def
    by (auto simp add: token_counts_def is_block_event_def split: if_splits)
  with assms count_error_inv show ?thesis
    by metis
qed

lemma no_usage_extract:
  assumes "\<not> carries_usage chunk"
  shows "extract_usage chunk = Inr None"
  using assms unfolding carries_usage_def extract_usage_def
  by (cases chunk) auto

lemma process_chunk_inv:
  assumes "process_chunk st chunk = (st', evs', r)" and "\<not> carries_usage chunk"
  shows "token_counts st' = token_counts st \<and> list_all is_block_event evs'"
proof (cases "extract_delta chunk")
  case (Inl e)
  with assms show ?thesis
    by (simp add: process_chunk_def)
next
  case (Inr x)
  obtain d tcs fr where x: "x = (d, tcs, fr)"
    by (cases x) auto
  obtain st2 evs2 r2 where t: "text_phase st d = (st2, evs2, r2)"
    by (cases "text_phase st d") auto
  note ti = text_phase_inv [OF t]
  show ?thesis
  proof (cases r2)
    case (Some e)
    with assms Inr x t ti show ?thesis
      by (simp add: process_chunk_def no_usage_extract)
  next
    case None
    obtain st3 evs3 r3 where p: "tool_phase st2 tcs = (st3, evs3, r3)"
      by (cases "tool_phase st2 tcs") auto
    note pi = tool_phase_inv [OF p]
    show ?thesis
    proof (cases r3)
      case (Some e)
      with assms Inr x t ti None p pi show ?thesis
        by (auto simp add: process_chunk_def no_usage_extract)
    next
      case n3: None
      obtain st4 c where f: "finish_phase st3 fr = (st4, c)"
        by (cases "finish_phase st3 fr") auto
      from assms Inr x t ti None p pi n3 f finish_phase_inv [OF f] show ?thesis
        by (auto simp add: process_chunk_def no_usage_extract)
    qed
  qed
qed

lemma structured_chunk_inv:
  assumes "structured_chunk st chunk = (c, st', evs')" and "\<not> carries_usage chunk"
  shows "token_counts st' = token_counts st \<and> list_all is_block_event evs'"
proof (cases "(case chunk of PDict d \<Rightarrow> True | _ \<Rightarrow> False) \<or> py_hasattr chunk ''choices''")
  case False
  with assms show ?thesis
    by (simp add: structured_chunk_def)
next
  case True
  obtain st1 evs1 r1 where p: "process_chunk st chunk = (st1, evs1, r1)"
    by (cases "process_chunk st chunk") auto
  note pi = process_chunk_inv [OF p assms(2)]
  show ?thesis
  proof (cases r1)
    case (Inr c1)
    with assms True p pi show ?thesis
      by (simp add: structured_chunk_def)
  next
    case (Inl e)
    obtain c2 st2 evs2 where h: "handle_exception st1 e = (c2, st2, evs2)"
      by (cases "handle_exception st1 e") auto
    from assms True p pi Inl h handle_exception_inv [OF h] show ?thesis
      by (auto simp add: structured_chunk_def)
  qed
qed

lemma step_inv:
  assumes s: "step st item = (c, st', evs')"
    and u: "case processed_chunk st item of None \<Rightarrow> True | Some chunk \<Rightarrow> \<not> carries_usage chunk"
  shows "token_counts st' = token_counts st \<and> list_all is_block_event evs'"
proof (cases item)
  case Timeout
  with s show ?thesis
    by (auto simp add: step_def token_counts_def)
next
  case (Raises e)
  with s handle_exception_inv show ?thesis
    by (simp add: step_def)
next
  case (Chunk chunk)
  define st0 where "st0 = st\<lparr>consecutive_errors := 0, all_chunks := all_chunks st @ [chunk]\<rparr>"
  have t0: "token_counts st0 = token_counts st" and b0: "chunk_buffer st0 = chunk_buffer st"
    by (simp_all add: st0_def token_counts_def)
  show ?thesis
  proof (cases "\<exists>str. chunk = PStr str")
    case False
    with s Chunk have sc: "structured_chunk st0 chunk = (c, st', evs')"
      unfolding st0_def by (cases chunk) (simp_all add: step_def Let_def)
    from u Chunk False have "\<not> carries_usage chunk"
      by (cases chunk) (simp_all add: processed_chunk_def)
    from structured_chunk_inv [OF sc this] t0 show ?thesis
      by simp
  next
    case True
    then obtain str where str: "chunk = PStr str"
      by blast
    with s Chunk have sc: "string_chunk st0 str = (c, st', evs')"
      unfolding st0_def by (simp add: step_def Let_def)
    show ?thesis
    proof (cases "strip str = ''[DONE]'' \<or> is_malformed_chunk str")
      case True
      with sc t0 show ?thesis
        by (auto simp add: string_chunk_def Let_def token_counts_def split: if_splits)
    next
      case False
      obtain parsed buffer where
        p: "try_parse_buffered_chunk (chunk_buffer st @ str) = (parsed, buffer)"
        by (cases "try_parse_buffered_chunk (chunk_buffer st @ str)") auto
      show ?thesis
      proof (cases parsed)
        case None
        with sc False p t0 b0 show ?thesis
          by (auto simp add: string_chunk_def token_counts_def)
      next
        case (Some parsed_chunk)
        with sc False p b0
        have x: "structured_chunk (st0\<lparr>chunk_buffer := buffer\<rparr>) parsed_chunk = (c, st', evs')"
          by (simp add: string_chunk_def)
        from u Chunk str False p Some have "\<not> carries_usage parsed_chunk"
          by (simp add: processed_chunk_def)
        from structured_chunk_inv [OF x this] t0 show ?thesis
          by (simp add: token_counts_def)
      qed
    qed
  qed
qed

lemma stream_loop_inv:
  assumes "usage_free st items" and "stream_loop st items = (st', evs')"
  shows "token_counts st' = token_counts st \<and> list_all is_block_event evs'"
  using assms
proof (induction items arbitrary: st st' evs')
  case Nil
  then show ?case by simp
next
  case (Cons item items)
  obtain c st1 evs1 where s: "step st item = (c, st1, evs1)"
    by (cases "step st item") auto
  from Cons.prems(1)
  have u: "case processed_chunk st item of None \<Rightarrow> True | Some chunk \<Rightarrow> \<not> carries_usage chunk"
    by simp
  note i = step_inv [OF s u]
  show ?case
  proof (cases c)
    case Break
    with Cons.prems s i show ?thesis
      by simp
  next
    case Continue
    obtain st2 evs2 where l: "stream_loop st1 items = (st2, evs2)"
      by (cases "stream_loop st1 items") auto
    from Cons.prems(1) s Continue have "usage_free st1 items"
      by simp
    from Cons.IH [OF this l] Cons.prems(2) s Continue l i show ?thesis
      by auto
  qed
qed

subsection \<open>What the events report\<close>

lemma block_events_report_nothing:
  assumes "list_all is_block_event evs"
  shows "start_input_tokens evs = [] \<and> final_input_tokens evs = []"
  using assms
  by (induction evs)
     (auto simp add: start_input_tokens_def final_input_tokens_def is_block_event_def
           split: event.splits)

lemma input_tokens_append:
  "start_input_tokens (xs @ ys) = start_input_tokens xs @ start_input_tokens ys"
  "final_input_tokens (xs @ ys) = final_input_tokens xs @ final_input_tokens ys"
  by (simp_all add: start_input_tokens_def final_input_tokens_def)

lemma input_tokens_of_message_delta:
  "start_input_tokens [MessageDelta reason i tokens_out, MessageStop] = []"
  "final_input_tokens [MessageDelta reason i tokens_out, MessageStop] = [i]"
  by (simp_all add: start_input_tokens_def final_input_tokens_def)

lemma render_message_delta:
  "\<exists>t. render_event (MessageDelta reason (PInt a) (PInt b)) = Inr t"
  by (simp add: render_event_def)

lemma final_events_report:
  assumes "token_counts st = (PInt 0, PInt 0)"
  shows "start_input_tokens (final_events stream_chunk_builder st) = []
         \<and> set (final_input_tokens (final_events stream_chunk_builder st)) \<subseteq> {PInt 0}
         \<and> (builder_counts stream_chunk_builder (all_chunks st) \<longrightarrow>
              final_input_tokens (final_events stream_chunk_builder st) = [PInt 0])"
proof -
  define stops where "stops = ContentBlockStop text_block_index
      # map (\<lambda>p. ContentBlockStop (tool_index (snd p))) (current_tool_calls st)"
  have n: "start_input_tokens stops = []" "final_input_tokens stops = []"
    by (simp_all add: stops_def start_input_tokens_def final_input_tokens_def comp_def)
  from assms have i: "input_tokens st = PInt 0" and out: "output_tokens st = PInt 0"
    by (simp_all add: token_counts_def)
  have "final_events stream_chunk_builder st = stops
        \<or> (\<exists>reason tokens_out. final_events stream_chunk_builder st
              = stops @ [MessageDelta reason (PInt 0) tokens_out, MessageStop])"
    unfolding final_events_def Let_def stops_def [symmetric] i
    by (auto split: sum.splits)
  then have a: "start_input_tokens (final_events stream_chunk_builder st) = []
         \<and> set (final_input_tokens (final_events stream_chunk_builder st)) \<subseteq> {PInt 0}"
    using n by (auto simp add: input_tokens_append input_tokens_of_message_delta)
  have b: "final_input_tokens (final_events stream_chunk_builder st) = [PInt 0]"
    if c: "builder_counts stream_chunk_builder (all_chunks st)"
  proof -
    from c obtain final_response where
      r: "stream_chunk_builder (all_chunks st) = Inr final_response"
      unfolding builder_counts_def by (auto split: sum.splits)
    define tokens_out where "tokens_out =
      (if truthy final_response \<and> py_hasattr final_response ''usage''
       then py_getattr_default (py_getattr_default final_response ''usage'' PNone)
              ''completion_tokens'' (PInt 0)
       else output_tokens st)"
    have "\<exists>k. tokens_out = PInt k"
    proof (cases "truthy final_response \<and> py_hasattr final_response ''usage''")
      case True
      with c r show ?thesis
        unfolding builder_counts_def tokens_out_def by (auto split: pyval.splits)
    next
      case False
      with out show ?thesis
        unfolding tokens_out_def by auto
    qed
    then obtain k where k: "tokens_out = PInt k"
      by blast
    define reason where "reason = (if stream_terminated_early st \<and> final_stop_reason st = STOP_END_TURN
                    then STOP_ERROR else final_stop_reason st)"
    from render_message_delta obtain t where
      t: "render_event (MessageDelta reason (PInt 0) (PInt k)) = Inr t"
      by blast
    from k have kt: "py_getattr_default (py_getattr_default final_response ''usage'' PNone)
                       ''completion_tokens'' (PInt 0) = PInt k"
      if "truthy final_response" and "py_hasattr final_response ''usage''"
      using that by (simp add: tokens_out_def)
    from k have kf: "output_tokens st = PInt k"
      if "\<not> (truthy final_response \<and> py_hasattr final_response ''usage'')"
      using that by (simp add: tokens_out_def)
    have "final_events stream_chunk_builder st
          = stops @ [MessageDelta reason (PInt 0) (PInt k), MessageStop]"
      unfolding final_events_def Let_def stops_def [symmetric] i r reason_def [symmetric]
      using kf by (auto simp add: t kt)
    with n show ?thesis
      by (simp add: input_tokens_append input_tokens_of_message_delta)
  qed
  from a b show ?thesis
    by blast
qed

text \<open>
  C10. The first event of a stream, \<open>message_start\<close>, reports the count of input tokens
  that the caller passed in, and no other event of that kind follows. The loop starts
  with the counter set to 0 and changes it only from the usage snapshot of a chunk.
  Hence, when no chunk that the loop has in hand carries a usage snapshot, every
  \<open>message_delta\<close> event of the stream reports 0 input tokens, and there is exactly one
  such event when the builder of the final response returns with an integer count of
  output tokens; the two events disagree whenever the caller passed a count other than 0.
\<close>

theorem message_delta_reports_zero_input_tokens:
  assumes "usage_free initial_state response_generator"
  shows "start_input_tokens
           (handle_streaming_with_recovery stream_chunk_builder message_id original_request
              input_tokens_arg response_generator) = [input_tokens_arg]
         \<and> set (final_input_tokens
                  (handle_streaming_with_recovery stream_chunk_builder message_id
                     original_request input_tokens_arg response_generator)) \<subseteq> {PInt 0}
         \<and> (builder_counts stream_chunk_builder
               (all_chunks (fst (stream_loop initial_state response_generator))) \<longrightarrow>
              final_input_tokens
                (handle_streaming_with_recovery stream_chunk_builder message_id
                   original_request input_tokens_arg response_generator) = [PInt 0])"
proof -
  obtain st evs where l: "stream_loop initial_state response_generator = (st, evs)"
    by (cases "stream_loop initial_state response_generator") auto
  from stream_loop_inv [OF assms l]
  have t: "token_counts st = (PInt 0, PInt 0)" and b: "list_all is_block_event evs"
    by (simp_all add: token_counts_def initial_state_def)
  note e = block_events_report_nothing [OF b]
  note f = final_events_report [OF t, of stream_chunk_builder]
  have h: "handle_streaming_with_recovery stream_chunk_builder message_id original_request
             input_tokens_arg response_generator
           = [MessageStart message_id (echoed_model original_request) input_tokens_arg,
              ContentBlockStartText text_block_index, Ping]
             @ evs @ final_events stream_chunk_builder st"
    by (simp add: handle_streaming_with_recovery_def l)
  have p: "start_input_tokens [MessageStart message_id (echoed_model original_request)
                                 input_tokens_arg,
                               ContentBlockStartText text_block_index, Ping]
           = [input_tokens_arg]"
    "final_input_tokens [MessageStart message_id (echoed_model original_request)
                           input_tokens_arg,
                         ContentBlockStartText text_block_index, Ping] = []"
    by (simp_all add: start_input_tokens_def final_input_tokens_def)
  from e f show ?thesis
    unfolding h input_tokens_append p l fst_conv by simp
qed

theorem message_delta_reports_zero_input_tokens_witness:
  "usage_free initial_state
     [Chunk (PStr (take 20 (delta_fragment ''Hello''))),
      Chunk (PStr (drop 20 (delta_fragment ''Hello'')))]
   \<and> start_input_tokens
       (handle_streaming_with_recovery (\<lambda>chunks. Inr PNone) ''msg_1'' sample_request 42
          [Chunk (PStr (take 20 (delta_fragment ''Hello''))),
           Chunk (PStr (drop 20 (delta_fragment ''Hello'')))]) = [42]
   \<and> final_input_tokens
       (handle_streaming_with_recovery (\<lambda>chunks. Inr PNone) ''msg_1'' sample_request 42
          [Chunk (PStr (take 20 (delta_fragment ''Hello''))),
           Chunk (PStr (drop 20 (delta_fragment ''Hello'')))]) = [PInt 0]"
proof -
  define items where "items = [Chunk (PStr (take 20 (delta_fragment ''Hello''))),
                               Chunk (PStr (drop 20 (delta_fragment ''Hello'')))]"
  have u: "usage_free initial_state items"
    unfolding items_def by code_simp
  have c: "builder_counts (\<lambda>chunks. Inr PNone)
             (all_chunks (fst (stream_loop initial_state items)))"
    by (simp add: builder_counts_def)
  from message_delta_reports_zero_input_tokens
         [OF u, of "\<lambda>chunks. Inr PNone" "''msg_1''" sample_request 42] c u
  show ?thesis
    unfolding items_def by blast
qed

section \<open>The finish reason on both paths\<close>

lemma convert_body_stop_reason:
  assumes "convert_body env r req = Inr response"
  shows "\<exists>x. extract_response env r = Inr x
             \<and> stop_reason response
               = map_finish_reason (finish_reason x) (truthy (ex_tool_calls x))"
proof -
  from assms obtain x blocks where x: "extract_response env r = Inr x"
    and b: "build_response env req x blocks = Inr response"
    unfolding convert_body_def
    by (cases "extract_response env r"; cases "text_blocks_of (projr (extract_response env r))")
       auto
  from b have "stop_reason response
               = map_finish_reason (finish_reason x) (truthy (ex_tool_calls x))"
    unfolding build_response_def Let_def
    by (cases "as_str ''id'' (ex_response_id x)"; cases "as_int env (prompt_tokens x)";
        cases "as_int env (completion_tokens x)") auto
  with x show ?thesis
    by blast
qed

subsection \<open>The stop reason in the chunk loop\<close>

lemma stream_stop_reason_map:
  assumes "truthy fr"
  shows "stream_stop_reason fr = map_finish_reason fr has_tool_calls"
  using assms by (cases "fr = PNone") (auto simp add: stream_stop_reason_def map_finish_reason_def)

lemma process_chunk_reason:
  assumes "process_chunk st chunk = (st', evs, r)"
  shows "list_all is_block_event evs
         \<and> (case r of
              Inr c \<Rightarrow>
                if truthy (chunk_finish_reason chunk)
                then c = Break
                     \<and> final_stop_reason st' = stream_stop_reason (chunk_finish_reason chunk)
                else c = Continue \<and> final_stop_reason st' = final_stop_reason st
            | Inl e \<Rightarrow> final_stop_reason st' = final_stop_reason st)"
proof (cases "extract_delta chunk")
  case (Inl e)
  with assms show ?thesis
    by (auto simp add: process_chunk_def)
next
  case (Inr x)
  obtain d tcs fr where x: "x = (d, tcs, fr)"
    by (cases x) auto
  with Inr have fr: "chunk_finish_reason chunk = fr"
    by (simp add: chunk_finish_reason_def)
  show ?thesis
  proof (cases "extract_usage chunk")
    case (Inl e)
    with assms Inr x show ?thesis
      by (auto simp add: process_chunk_def)
  next
    case u: (Inr snapshot)
    define st1 where "st1 = (case snapshot of
                               None \<Rightarrow> st
                             | Some (i, out) \<Rightarrow> st\<lparr>input_tokens := i, output_tokens := out\<rparr>)"
    have r1: "final_stop_reason st1 = final_stop_reason st"
      by (cases snapshot) (auto simp add: st1_def)
    obtain st2 evs2 r2 where t: "text_phase st1 d = (st2, evs2, r2)"
      by (cases "text_phase st1 d") auto
    note ti = text_phase_inv [OF t]
    show ?thesis
    proof (cases r2)
      case (Some e)
      with assms Inr x u t ti r1 show ?thesis
        by (auto simp add: process_chunk_def st1_def [symmetric])
    next
      case None
      obtain st3 evs3 r3 where p: "tool_phase st2 tcs = (st3, evs3, r3)"
        by (cases "tool_phase st2 tcs") auto
      note pi = tool_phase_inv [OF p]
      show ?thesis
      proof (cases r3)
        case (Some e)
        with assms Inr x u t ti None p pi r1 show ?thesis
          by (auto simp add: process_chunk_def st1_def [symmetric])
      next
        case n3: None
        from assms Inr x u t None p n3
        have "(case finish_phase st3 fr of (st4, c) \<Rightarrow> (st4, evs2 @ evs3, Inr c))
              = (st', evs, r)"
          by (simp add: process_chunk_def st1_def [symmetric])
        with ti pi r1 fr show ?thesis
          by (auto simp add: finish_phase_def split: if_splits)
      qed
    qed
  qed
qed

lemma structured_chunk_reason:
  assumes "structured_chunk st chunk = (c, st', evs)"
  shows "list_all is_block_event evs
         \<and> (final_stop_reason st' = final_stop_reason st
            \<or> (c = Break \<and> truthy (chunk_finish_reason chunk)
               \<and> final_stop_reason st' = stream_stop_reason (chunk_finish_reason chunk)))"
proof (cases "(case chunk of PDict d \<Rightarrow> True | _ \<Rightarrow> False) \<or> py_hasattr chunk ''choices''")
  case False
  with assms show ?thesis
    by (simp add: structured_chunk_def)
next
  case True
  obtain st1 evs1 r1 where p: "process_chunk st chunk = (st1, evs1, r1)"
    by (cases "process_chunk st chunk") auto
  note pr = process_chunk_reason [OF p]
  show ?thesis
  proof (cases r1)
    case (Inr c1)
    with assms True p pr show ?thesis
      by (auto simp add: structured_chunk_def split: if_splits)
  next
    case (Inl e)
    obtain c2 st2 evs2 where h: "handle_exception st1 e = (c2, st2, evs2)"
      by (cases "handle_exception st1 e") auto
    from assms True p pr Inl h handle_exception_inv [OF h] show ?thesis
      by (auto simp add: structured_chunk_def)
  qed
qed

lemma step_reason:
  assumes s: "step st item = (c, st', evs)"
  shows "list_all is_block_event evs
         \<and> (final_stop_reason st' = final_stop_reason st
            \<or> (c = Break
               \<and> (\<exists>chunk. processed_chunk st item = Some chunk
                          \<and> truthy (chunk_finish_reason chunk)
                          \<and> final_stop_reason st'
                            = stream_stop_reason (chunk_finish_reason chunk))))"
proof (cases item)
  case Timeout
  with s show ?thesis
    by (auto simp add: step_def)
next
  case (Raises e)
  with s handle_exception_inv [of st e c st' evs] show ?thesis
    by (simp add: step_def)
next
  case (Chunk chunk)
  define st0 where "st0 = st\<lparr>consecutive_errors := 0, all_chunks := all_chunks st @ [chunk]\<rparr>"
  have t0: "final_stop_reason st0 = final_stop_reason st"
    and b0: "chunk_buffer st0 = chunk_buffer st"
    by (simp_all add: st0_def)
  show ?thesis
  proof (cases "\<exists>str. chunk = PStr str")
    case False
    with s Chunk have sc: "structured_chunk st0 chunk = (c, st', evs)"
      unfolding st0_def by (cases chunk) (simp_all add: step_def Let_def)
    from Chunk False have "processed_chunk st item = Some chunk"
      by (cases chunk) (simp_all add: processed_chunk_def)
    with structured_chunk_reason [OF sc] t0 show ?thesis
      by auto
  next
    case True
    then obtain str where str: "chunk = PStr str"
      by blast
    with s Chunk have sc: "string_chunk st0 str = (c, st', evs)"
      unfolding st0_def by (simp add: step_def Let_def)
    show ?thesis
    proof (cases "strip str = ''[DONE]'' \<or> is_malformed_chunk str")
      case True
      with sc t0 show ?thesis
        by (auto simp add: string_chunk_def Let_def split: if_splits)
    next
      case False
      obtain parsed buffer where
        p: "try_parse_buffered_chunk (chunk_buffer st @ str) = (parsed, buffer)"
        by (cases "try_parse_buffered_chunk (chunk_buffer st @ str)") auto
      show ?thesis
      proof (cases parsed)
        case None
        with sc False p t0 b0 show ?thesis
          by (auto simp add: string_chunk_def)
      next
        case (Some parsed_chunk)
        with sc False p b0
        have x: "structured_chunk (st0\<lparr>chunk_buffer := buffer\<rparr>) parsed_chunk = (c, st', evs)"
          by (simp add: string_chunk_def)
        from Chunk str False p Some have "processed_chunk st item = Some parsed_chunk"
          by (simp add: processed_chunk_def)
        with structured_chunk_reason [OF x] t0 show ?thesis
          by auto
      qed
    qed
  qed
qed

lemma stream_loop_reason:
  assumes "stream_loop st items = (st', evs)"
  shows "list_all is_block_event evs
         \<and> (final_stop_reason st' = final_stop_reason st
            \<or> (\<exists>fr. truthy fr \<and> final_stop_reason st' = stream_stop_reason fr))
         \<and> (reason_free st items \<longrightarrow> final_stop_reason st' = final_stop_reason st)"
  using assms
proof (induction items arbitrary: st st' evs)
  case Nil
  then show ?case by simp
next
  case (Cons item items)
  obtain c st1 evs1 where s: "step st item = (c, st1, evs1)"
    by (cases "step st item") auto
  note i = step_reason [OF s]
  show ?case
  proof (cases c)
    case Break
    with Cons.prems s have e: "st' = st1" "evs = evs1"
      by simp_all
    from i Break show ?thesis
      unfolding e by auto
  next
    case Continue
    obtain st2 evs2 where l: "stream_loop st1 items = (st2, evs2)"
      by (cases "stream_loop st1 items") auto
    with Cons.prems s Continue have e: "st' = st2" "evs = evs1 @ evs2"
      by simp_all
    from i Continue have k: "final_stop_reason st1 = final_stop_reason st"
      and b1: "list_all is_block_event evs1"
      by auto
    from Cons.IH [OF l] k b1 s Continue show ?thesis
      unfolding e by auto
  qed
qed

lemma stop_reasons_append:
  "reported_stop_reasons (xs @ ys) = reported_stop_reasons xs @ reported_stop_reasons ys"
  by (simp add: reported_stop_reasons_def)

lemma block_events_no_stop_reason:
  assumes "list_all is_block_event evs"
  shows "reported_stop_reasons evs = []"
  using assms
  by (induction evs)
     (auto simp add: reported_stop_reasons_def is_block_event_def split: event.splits)

lemma final_events_stop_reason:
  "reported_stop_reasons (final_events stream_chunk_builder st) = []
   \<or> reported_stop_reasons (final_events stream_chunk_builder st)
     = [if stream_terminated_early st \<and> final_stop_reason st = STOP_END_TURN
        then STOP_ERROR else final_stop_reason st]"
proof -
  define stops where "stops = ContentBlockStop text_block_index
      # map (\<lambda>p. ContentBlockStop (tool_index (snd p))) (current_tool_calls st)"
  have n: "reported_stop_reasons stops = []"
    by (simp add: stops_def reported_stop_reasons_def comp_def)
  define reason where "reason = (if stream_terminated_early st \<and> final_stop_reason st = STOP_END_TURN
                    then STOP_ERROR else final_stop_reason st)"
  have "final_events stream_chunk_builder st = stops
        \<or> (\<exists>i out. final_events stream_chunk_builder st
              = stops @ [MessageDelta reason i out, MessageStop])"
    unfolding final_events_def Let_def stops_def [symmetric] reason_def [symmetric]
    by (auto split: sum.splits)
  moreover have "reported_stop_reasons [MessageDelta reason i out, MessageStop] = [reason]"
    for i out
    by (simp add: reported_stop_reasons_def)
  ultimately show ?thesis
    unfolding reason_def [symmetric] using n by (auto simp add: stop_reasons_append)
qed

lemma handler_stop_reasons:
  assumes "stream_loop initial_state response_generator = (st, evs)"
  shows "reported_stop_reasons
           (handle_streaming_with_recovery stream_chunk_builder message_id original_request
              input_tokens_arg response_generator)
         = reported_stop_reasons (final_events stream_chunk_builder st)"
proof -
  from stream_loop_reason [OF assms] have "list_all is_block_event evs"
    by simp
  then have e: "reported_stop_reasons evs = []"
    by (rule block_events_no_stop_reason)
  have p: "reported_stop_reasons
           [MessageStart message_id (echoed_model original_request) input_tokens_arg,
            ContentBlockStartText text_block_index, Ping] = []"
    by (simp add: reported_stop_reasons_def)
  have "handle_streaming_with_recovery stream_chunk_builder message_id original_request
          input_tokens_arg response_generator
        = [MessageStart message_id (echoed_model original_request) input_tokens_arg,
           ContentBlockStartText text_block_index, Ping]
          @ evs @ final_events stream_chunk_builder st"
    by (simp add: handle_streaming_with_recovery_def assms)
  then show ?thesis
    by (simp only: stop_reasons_append e p append_Nil)
qed

text \<open>
  C9. The mapping of the translator, \<open>map_finish_reason\<close>, gives \<open>max_tokens\<close> for
  \<open>length\<close>, \<open>tool_use\<close> for \<open>tool_calls\<close> and for an absent reason with tool calls
  present, and \<open>end_turn\<close> for everything else, \<open>stop\<close> included; it is the stop reason
  of every response that the body of the translator returns. In the streaming handler,
  a chunk that is processed without an exception and carries a true finish reason sets
  the stop reason to the same mapping of it and ends the loop; one that carries none
  changes nothing, whether or not tool calls were streamed; and a chunk on which an
  exception is raised changes nothing either. So a round of the loop changes the stop
  reason only in the first case, a stream in which no chunk in hand carries a true
  finish reason reports \<open>end_turn\<close> in its \<open>message_delta\<close>, or \<open>error\<close> when it was
  terminated early, and the \<open>message_delta\<close> of any stream reports \<open>end_turn\<close>,
  \<open>error\<close> or the mapping of a true finish reason.
\<close>

theorem finish_reason_mapping:
  "map_finish_reason fr has_tool_calls
     = (if fr = PStr ''length'' then ''max_tokens''
        else if fr = PStr ''tool_calls'' then ''tool_use''
        else if fr = PNone \<and> has_tool_calls then ''tool_use''
        else ''end_turn'')
   \<and> map_finish_reason (PStr ''stop'') has_tool_calls = ''end_turn''
   \<and> (\<forall>response. convert_body env r req = Inr response \<longrightarrow>
         (\<exists>x. extract_response env r = Inr x
               \<and> stop_reason response
                 = map_finish_reason (finish_reason x) (truthy (ex_tool_calls x))))
   \<and> finish_phase st fr
     = (if truthy fr
        then (st\<lparr>final_stop_reason := map_finish_reason fr has_tool_calls\<rparr>, Break)
        else (st, Continue))
   \<and> (process_chunk st chunk = (st', evs, Inr c) \<longrightarrow>
        (if truthy (chunk_finish_reason chunk)
         then c = Break
              \<and> final_stop_reason st'
                = map_finish_reason (chunk_finish_reason chunk) has_tool_calls
         else c = Continue \<and> final_stop_reason st' = final_stop_reason st))
   \<and> (process_chunk st chunk = (st', evs, Inl e) \<longrightarrow>
        final_stop_reason st' = final_stop_reason st)
   \<and> (step st item = (c1, st1, evs1) \<longrightarrow>
        (final_stop_reason st1 = final_stop_reason st
         \<or> (c1 = Break
            \<and> (\<exists>chunk. processed_chunk st item = Some chunk
                       \<and> truthy (chunk_finish_reason chunk)
                       \<and> final_stop_reason st1
                         = map_finish_reason (chunk_finish_reason chunk) has_tool_calls))))
   \<and> (reason_free initial_state response_generator \<longrightarrow>
        (reported_stop_reasons
           (handle_streaming_with_recovery stream_chunk_builder message_id original_request
              input_tokens_arg response_generator) = []
         \<or> reported_stop_reasons
             (handle_streaming_with_recovery stream_chunk_builder message_id original_request
                input_tokens_arg response_generator)
           = [if stream_terminated_early (fst (stream_loop initial_state response_generator))
              then ''error'' else ''end_turn'']))
   \<and> (reported_stop_reasons
         (handle_streaming_with_recovery stream_chunk_builder message_id original_request
            input_tokens_arg response_generator) = []
       \<or> (\<exists>reason. reported_stop_reasons
                      (handle_streaming_with_recovery stream_chunk_builder message_id
                         original_request input_tokens_arg response_generator) = [reason]
                    \<and> (reason = ''end_turn'' \<or> reason = ''error''
                       \<or> (\<exists>fr'. truthy fr'
                                 \<and> reason = map_finish_reason fr' has_tool_calls))))"
proof -
  have n1: "map_finish_reason fr has_tool_calls
     = (if fr = PStr ''length'' then ''max_tokens''
        else if fr = PStr ''tool_calls'' then ''tool_use''
        else if fr = PNone \<and> has_tool_calls then ''tool_use''
        else ''end_turn'')"
    by (simp add: map_finish_reason_def STOP_MAX_TOKENS_def STOP_TOOL_USE_def STOP_END_TURN_def)
  have n2: "map_finish_reason (PStr ''stop'') has_tool_calls = ''end_turn''"
    by (simp add: map_finish_reason_def STOP_END_TURN_def)
  have n3: "\<forall>response. convert_body env r req = Inr response \<longrightarrow>
         (\<exists>x. extract_response env r = Inr x
               \<and> stop_reason response
                 = map_finish_reason (finish_reason x) (truthy (ex_tool_calls x)))"
    using convert_body_stop_reason by blast
  have f: "finish_phase st fr
     = (if truthy fr
        then (st\<lparr>final_stop_reason := map_finish_reason fr has_tool_calls\<rparr>, Break)
        else (st, Continue))"
    by (cases "fr = PNone")
       (auto simp add: finish_phase_def stream_stop_reason_def map_finish_reason_def)
  have s1a: "if truthy (chunk_finish_reason chunk)
         then c = Break
              \<and> final_stop_reason st'
                = map_finish_reason (chunk_finish_reason chunk) has_tool_calls
         else c = Continue \<and> final_stop_reason st' = final_stop_reason st"
    if "process_chunk st chunk = (st', evs, Inr c)"
    using process_chunk_reason [OF that]
          stream_stop_reason_map [of "chunk_finish_reason chunk" has_tool_calls]
    by (auto split: if_splits)
  have s1b: "final_stop_reason st' = final_stop_reason st"
    if "process_chunk st chunk = (st', evs, Inl e)"
    using process_chunk_reason [OF that] by simp
  have s2: "final_stop_reason st1 = final_stop_reason st
         \<or> (c1 = Break
            \<and> (\<exists>chunk. processed_chunk st item = Some chunk
                       \<and> truthy (chunk_finish_reason chunk)
                       \<and> final_stop_reason st1
                         = map_finish_reason (chunk_finish_reason chunk) has_tool_calls))"
    if "step st item = (c1, st1, evs1)"
    using step_reason [OF that] stream_stop_reason_map [of _ has_tool_calls]
    by metis
  obtain stf evsf where l: "stream_loop initial_state response_generator = (stf, evsf)"
    by (cases "stream_loop initial_state response_generator") auto
  note h = handler_stop_reasons [OF l, of stream_chunk_builder message_id original_request
                                    input_tokens_arg]
  note fe = final_events_stop_reason [of stream_chunk_builder stf]
  note lr = stream_loop_reason [OF l]
  have i: "final_stop_reason initial_state = STOP_END_TURN"
    by (simp add: initial_state_def)
  have s3: "reported_stop_reasons
           (handle_streaming_with_recovery stream_chunk_builder message_id original_request
              input_tokens_arg response_generator) = []
         \<or> reported_stop_reasons
             (handle_streaming_with_recovery stream_chunk_builder message_id original_request
                input_tokens_arg response_generator)
           = [if stream_terminated_early (fst (stream_loop initial_state response_generator))
              then ''error'' else ''end_turn'']"
    if "reason_free initial_state response_generator"
  proof -
    from lr that i have "final_stop_reason stf = STOP_END_TURN"
      by simp
    with fe show ?thesis
      unfolding h l fst_conv by (auto simp add: STOP_END_TURN_def STOP_ERROR_def)
  qed
  have s4: "reported_stop_reasons
         (handle_streaming_with_recovery stream_chunk_builder message_id original_request
            input_tokens_arg response_generator) = []
       \<or> (\<exists>reason. reported_stop_reasons
                      (handle_streaming_with_recovery stream_chunk_builder message_id
                         original_request input_tokens_arg response_generator) = [reason]
                    \<and> (reason = ''end_turn'' \<or> reason = ''error''
                       \<or> (\<exists>fr'. truthy fr'
                                 \<and> reason = map_finish_reason fr' has_tool_calls)))"
  proof -
    from lr i have "final_stop_reason stf = ''end_turn''
                    \<or> (\<exists>fr'. truthy fr'
                              \<and> final_stop_reason stf = map_finish_reason fr' has_tool_calls)"
      using stream_stop_reason_map [of _ has_tool_calls]
      by (metis STOP_END_TURN_def)
    with fe show ?thesis
      unfolding h by (auto simp add: STOP_END_TURN_def STOP_ERROR_def split: if_splits)
  qed
  from n1 n2 n3 f s1a s1b s2 s3 s4 show ?thesis
    by blast
qed

theorem finish_reason_mapping_witness:
  "convert_body sample_env
     (PDict [(''id'', PStr ''r1''),
             (''choices'',
              PList [PDict [(''message'', PDict [(''content'', PStr ''Hi'')]),
                            (''finish_reason'', PStr ''length'')]]),
             (''usage'', PDict [(''prompt_tokens'', PInt 3), (''completion_tokens'', PInt 4)])])
     sample_request
   = Inr \<lparr> response_id = ''r1'', response_model = ''claude-3-opus'',
           response_role = ''assistant'', response_content = [ResponseText ''Hi''],
           stop_reason = ''max_tokens'', stop_sequence = None,
           response_usage = \<lparr> usage_input_tokens = 3, usage_output_tokens = 4,
                              cache_creation_input_tokens = 0,
                              cache_read_input_tokens = 0 \<rparr> \<rparr>
   \<and> (\<exists>x. extract_response sample_env
             (PDict [(''id'', PStr ''r1''),
                     (''choices'',
                      PList [PDict [(''message'', PDict [(''content'', PStr ''Hi'')]),
                                    (''finish_reason'', PStr ''length'')]]),
                     (''usage'', PDict [(''prompt_tokens'', PInt 3),
                                        (''completion_tokens'', PInt 4)])]) = Inr x
           \<and> map_finish_reason (finish_reason x) (truthy (ex_tool_calls x)) = ''max_tokens'')
   \<and> process_chunk initial_state (length_chunk (PStr ''Hi''))
     = (initial_state\<lparr>accumulated_text := ''Hi'', final_stop_reason := ''max_tokens''\<rparr>,
        [ContentBlockDeltaText 0 ''Hi''], Inr Break)
   \<and> map_finish_reason (chunk_finish_reason (length_chunk (PStr ''Hi''))) True = ''max_tokens''
   \<and> process_chunk initial_state (length_chunk (PInt 5))
     = (initial_state, [],
        Inl (Exn TypeError (''can only concatenate str (not '' @ [dq] @ ''int'' @ [dq]
                            @ '') to str'')))
   \<and> final_stop_reason initial_state = ''end_turn''
   \<and> step initial_state (Chunk (length_chunk (PInt 5)))
     = (Continue,
        initial_state\<lparr>all_chunks := [length_chunk (PInt 5)], consecutive_errors := 1\<rparr>, [])
   \<and> reason_free initial_state [Chunk tool_call_chunk]
   \<and> reported_stop_reasons
       (handle_streaming_with_recovery (\<lambda>chunks. Inr PNone) ''msg_1'' sample_request 7
          [Chunk tool_call_chunk]) = [''end_turn'']"
proof -
  define r where "r = PDict [(''id'', PStr ''r1''),
             (''choices'',
              PList [PDict [(''message'', PDict [(''content'', PStr ''Hi'')]),
                            (''finish_reason'', PStr ''length'')]]),
             (''usage'', PDict [(''prompt_tokens'', PInt 3), (''completion_tokens'', PInt 4)])]"
  define response where "response = \<lparr> response_id = ''r1'', response_model = ''claude-3-opus'',
           response_role = ''assistant'', response_content = [ResponseText ''Hi''],
           stop_reason = ''max_tokens'', stop_sequence = None,
           response_usage = \<lparr> usage_input_tokens = 3, usage_output_tokens = 4,
                              cache_creation_input_tokens = 0,
                              cache_read_input_tokens = 0 \<rparr> \<rparr>"
  define st' where "st' = initial_state\<lparr>accumulated_text := ''Hi'',
                                        final_stop_reason := ''max_tokens''\<rparr>"
  have cb: "convert_body sample_env r sample_request = Inr response"
    unfolding r_def response_def by code_simp
  have sr: "stop_reason response = ''max_tokens''"
    by (simp add: response_def)
  have pc: "process_chunk initial_state (length_chunk (PStr ''Hi''))
            = (st', [ContentBlockDeltaText 0 ''Hi''], Inr Break)"
    unfolding st'_def by code_simp
  have tr: "truthy (chunk_finish_reason (length_chunk (PStr ''Hi'')))"
    by code_simp
  have fs: "final_stop_reason st' = ''max_tokens''"
    by (simp add: st'_def)
  have px: "process_chunk initial_state (length_chunk (PInt 5))
     = (initial_state, [],
        Inl (Exn TypeError (''can only concatenate str (not '' @ [dq] @ ''int'' @ [dq]
                            @ '') to str'')))"
    by code_simp
  have sx: "step initial_state (Chunk (length_chunk (PInt 5)))
     = (Continue,
        initial_state\<lparr>all_chunks := [length_chunk (PInt 5)], consecutive_errors := 1\<rparr>, [])"
    by code_simp
  have rf: "reason_free initial_state [Chunk tool_call_chunk]"
    by code_simp
  have ev: "reported_stop_reasons
       (handle_streaming_with_recovery (\<lambda>chunks. Inr PNone) ''msg_1'' sample_request 7
          [Chunk tool_call_chunk]) = [''end_turn'']"
    by code_simp
  note t = finish_reason_mapping
             [where env = sample_env and r = r and req = sample_request
                and st = initial_state and chunk = "length_chunk (PStr ''Hi'')"
                and st' = st' and evs = "[ContentBlockDeltaText 0 ''Hi'']" and c = Break
                and has_tool_calls = True]
  from t cb have x: "\<exists>x. extract_response sample_env r = Inr x
             \<and> map_finish_reason (finish_reason x) (truthy (ex_tool_calls x)) = ''max_tokens''"
    unfolding sr [symmetric] by metis
  from t pc tr fs
  have m: "map_finish_reason (chunk_finish_reason (length_chunk (PStr ''Hi''))) True
           = ''max_tokens''"
    by metis
  have y: "final_stop_reason initial_state = ''end_turn''"
    by (simp add: initial_state_def STOP_END_TURN_def)
  from cb x pc m px y sx rf ev show ?thesis
    unfolding r_def response_def st'_def by blast
qed

text \<open>
  A stream of the one chunk \<open>tool_call_chunk\<close>: the tool call is streamed, no finish
  reason arrives, and the final \<open>message_delta\<close> reports \<open>end_turn\<close>, where the
  translator maps an absent reason with tool calls present to \<open>tool_use\<close>.
\<close>

theorem streaming_absent_reason_counterexample:
  "handle_streaming_with_recovery (\<lambda>chunks. Inr PNone) ''msg_1'' sample_request 7
     [Chunk tool_call_chunk]
   = [MessageStart ''msg_1'' ''claude-3-opus'' 7, ContentBlockStartText 0, Ping,
      ContentBlockStartToolUse 1 (PStr ''call_1'') (PStr ''get_weather''),
      ContentBlockDeltaJson 1 (PStr ''{}''),
      ContentBlockStop 0, ContentBlockStop 1,
      MessageDelta ''end_turn'' (PInt 0) (PInt 0), MessageStop]
   \<and> map_finish_reason PNone True = ''tool_use''"
  by code_simp

end
